theory Spec2Isabelle
  imports Main "HOL-Library.Sublist"
begin

section \<open>Values shared by the client provider and the infoview\<close>

text \<open>
  The development embeds \<^verbatim>\<open>src/vscode-lean4/src/utils/clientProvider.ts\<close>, which holds
  the classes \<^verbatim>\<open>LeanClientProvider\<close>, \<^verbatim>\<open>RpcSession\<close> and \<^verbatim>\<open>InfoProvider\<close>.
  Strings are lists of characters. A JavaScript \<^verbatim>\<open>Map\<close> keeps its keys in insertion
  order, so it is an association list: \<^verbatim>\<open>set\<close> overwrites the value of a present key
  where it stands and appends an absent one, \<^verbatim>\<open>delete\<close> removes the key.
\<close>

definition Map_has :: "('k \<times> 'v) list \<Rightarrow> 'k \<Rightarrow> bool" where
  "Map_has m k = (map_of m k \<noteq> None)"

definition Map_get :: "('k \<times> 'v) list \<Rightarrow> 'k \<Rightarrow> 'v option" where
  "Map_get m k = map_of m k"

fun Map_set :: "('k \<times> 'v) list \<Rightarrow> 'k \<Rightarrow> 'v \<Rightarrow> ('k \<times> 'v) list" where
  "Map_set [] k v = [(k, v)]"
| "Map_set ((k', v') # m) k v =
     (if k' = k then (k, v) # m else (k', v') # Map_set m k v)"

definition Map_delete :: "('k \<times> 'v) list \<Rightarrow> 'k \<Rightarrow> ('k \<times> 'v) list" where
  "Map_delete m k = filter (\<lambda>e. fst e \<noteq> k) m"

definition Map_values :: "('k \<times> 'v) list \<Rightarrow> 'v list" where
  "Map_values m = map snd m"

text \<open>\<^verbatim>\<open>s.startsWith(p)\<close>\<close>

definition startsWith :: "string \<Rightarrow> string \<Rightarrow> bool" where
  "startsWith s p = prefix p s"

text \<open>
  A \<^verbatim>\<open>Uri\<close> of the editor is kept as its scheme and the string \<^verbatim>\<open>toString()\<close>
  gives; \<^verbatim>\<open>Uri.from({scheme: 'untitled'})\<close> is the synthetic root of documents
  without a folder.
\<close>

record uri =
  scheme :: string
  uriString :: string

definition untitledUri :: uri where
  "untitledUri = \<lparr>scheme = ''untitled'', uriString = ''untitled:''\<rparr>"

text \<open>\<^verbatim>\<open>LeanVersion\<close>: \<^verbatim>\<open>{ version: string, error: string | undefined }\<close>\<close>

record leanVersion =
  version :: string
  error :: "string option"

text \<open>
  A \<^verbatim>\<open>LeanClient\<close> object. The class lives in \<^verbatim>\<open>leanclient.ts\<close>, which is not among
  the sources; the record keeps the constructor's arguments and \<open>cid\<close>, the identity of
  the object (\<^verbatim>\<open>===\<close> on clients compares \<open>cid\<close>).
\<close>

record leanClient =
  cid :: nat
  workspaceFolder :: "string option"
  folderUri :: uri

text \<open>
  Modelled from the spec: \<^verbatim>\<open>LeanClient.getWorkspaceFolder\<close> is missing from the sources;
  the spec calls its result the connection's "root location string", the string of the
  folder the connection was created for.
\<close>

definition getWorkspaceFolder :: "leanClient \<Rightarrow> string" where
  "getWorkspaceFolder c = uriString (folderUri c)"

text \<open>
  \<^verbatim>\<open>findLeanPackageRoot\<close> (\<^verbatim>\<open>projectInfo.ts\<close>, not among the sources) is a parameter of
  every function that calls it: it maps a location to the workspace folder, the package
  folder and the package file, each possibly absent.
\<close>

type_synonym packageRoot = "uri \<Rightarrow> string option \<times> uri option \<times> uri option"

section \<open>LeanClientProvider\<close>

text \<open>
  The fields of the class, followed by what its collaborators record: \<open>nextClient\<close>
  numbers the objects \<^verbatim>\<open>new LeanClient\<close> allocates, \<open>disposedClients\<close>,
  \<open>startedClients\<close> and \<open>restartedClients\<close> log the calls of \<^verbatim>\<open>dispose()\<close>,
  \<^verbatim>\<open>start()\<close> and \<^verbatim>\<open>restart()\<close>, \<open>serverFailedHandlers\<close> the callbacks given to
  \<^verbatim>\<open>client.serverFailed\<close> with the path they capture, \<open>clientAddedFired\<close> and
  \<open>clientRemovedFired\<close> the events of the two emitters, \<open>consoleLog\<close> the lines of
  \<^verbatim>\<open>console.log\<close>.
\<close>

record leanClientProvider =
  subscriptions :: "leanClient list"
  versions :: "(string \<times> leanVersion) list"
  clients :: "(string \<times> leanClient) list"
  pending :: "(string \<times> bool) list"
  testing :: "(string \<times> bool) list"
  activeClient :: "leanClient option"
  nextClient :: nat
  disposedClients :: "nat list"
  startedClients :: "nat list"
  restartedClients :: "nat list"
  serverFailedHandlers :: "(nat \<times> string) list"
  clientAddedFired :: "leanClient list"
  clientRemovedFired :: "leanClient list"
  consoleLog :: "string list"

definition newProvider :: leanClientProvider where
  "newProvider = \<lparr>subscriptions = [], versions = [], clients = [], pending = [],
     testing = [], activeClient = None, nextClient = 0, disposedClients = [],
     startedClients = [], restartedClients = [], serverFailedHandlers = [],
     clientAddedFired = [], clientRemovedFired = [], consoleLog = []\<rparr>"

definition getClients :: "leanClientProvider \<Rightarrow> leanClient list" where
  "getClients p = Map_values (clients p)"

text \<open>The loop of \<^verbatim>\<open>findClient\<close>: the first client whose folder starts the path.\<close>

fun findClient_loop :: "leanClient list \<Rightarrow> string \<Rightarrow> leanClient option" where
  "findClient_loop [] path = None"
| "findClient_loop (client # rest) path =
     (if startsWith path (getWorkspaceFolder client) then Some client
      else findClient_loop rest path)"

definition findClient :: "leanClientProvider \<Rightarrow> string \<Rightarrow> leanClient option" where
  "findClient p path =
     (if path \<noteq> [] then findClient_loop (getClients p) path else None)"

text \<open>
  The first two lines of \<^verbatim>\<open>ensureClient\<close> and of \<^verbatim>\<open>getLeanVersion\<close>: the workspace
  folder and the folder of the location, the untitled folder when there is none.
\<close>

definition folderOf :: "packageRoot \<Rightarrow> uri \<Rightarrow> string option \<times> uri" where
  "folderOf findLeanPackageRoot u =
     (case findLeanPackageRoot u of
        (wsFolder, folder, packageFileUri) \<Rightarrow>
          (wsFolder, (case folder of Some f \<Rightarrow> f | None \<Rightarrow> untitledUri)))"

definition rootPath :: "packageRoot \<Rightarrow> uri \<Rightarrow> string" where
  "rootPath findLeanPackageRoot u = uriString (snd (folderOf findLeanPackageRoot u))"

text \<open>
  \<^verbatim>\<open>getLeanVersion\<close> runs to its first \<^verbatim>\<open>await\<close>: a cached version and the version of
  an untitled folder are ready at once, anything else waits for
  \<^verbatim>\<open>installer.testLeanVersion\<close>, whose answer \<open>getLeanVersion_resume\<close> stores.
\<close>

datatype versionWait = VersionReady "leanVersion option" | VersionProbe string

definition getLeanVersion_begin ::
  "packageRoot \<Rightarrow> leanClientProvider \<Rightarrow> uri \<Rightarrow> versionWait \<times> leanClientProvider" where
  "getLeanVersion_begin findLeanPackageRoot p u =
     (let path = rootPath findLeanPackageRoot u in
      if Map_has (versions p) path then (VersionReady (Map_get (versions p) path), p)
      else if scheme u = ''untitled'' then
        (let versionInfo = \<lparr>version = ''4'', error = None\<rparr> in
         (VersionReady (Some versionInfo),
          p\<lparr>versions := Map_set (versions p) path versionInfo\<rparr>))
      else (VersionProbe path, p))"

definition getLeanVersion_resume ::
  "leanClientProvider \<Rightarrow> string \<Rightarrow> leanVersion \<Rightarrow> leanVersion option \<times> leanClientProvider" where
  "getLeanVersion_resume p path versionInfo =
     (Some versionInfo, p\<lparr>versions := Map_set (versions p) path versionInfo\<rparr>)"

text \<open>
  \<^verbatim>\<open>ensureClient\<close> is asynchronous: between two \<^verbatim>\<open>await\<close>s it runs without
  interruption, at an \<^verbatim>\<open>await\<close> any other handler may run. A call is therefore a
  sequence of steps, each a function on the provider; a step ends with the value the
  call returns or with the place where it waits.
\<close>

datatype ensureStep =
    Returned bool "leanClient option"
  | AwaitVersion string leanClient bool versionWait
  | AwaitStart leanClient bool

text \<open>
  The part of \<^verbatim>\<open>ensureClient\<close> after the version is known. A non-empty version other
  than \<^verbatim>\<open>'4'\<close> is logged, deregisters and disposes the client and returns before
  \<^verbatim>\<open>activeClient\<close> is written. Otherwise the failure handler is installed, the guard
  cleared, \<^verbatim>\<open>clientAdded\<close> fired, and \<^verbatim>\<open>client.start()\<close> called when the version has
  no error (\<^verbatim>\<open>undefined\<close> and the empty string are both falsy).
\<close>

definition ensureClient_versioned ::
  "leanClientProvider \<Rightarrow> string \<Rightarrow> leanClient \<Rightarrow> bool \<Rightarrow> leanVersion option
     \<Rightarrow> ensureStep \<times> leanClientProvider" where
  "ensureClient_versioned p path client cachedClient versionInfo =
     (if (case versionInfo of None \<Rightarrow> False
          | Some v \<Rightarrow> version v \<noteq> [] \<and> version v \<noteq> ''4'') then
        (Returned False None,
         p\<lparr>consoleLog := consoleLog p @
             [''Lean4 extension ignoring workspace '' @ [CHR 0x27] @ path @ [CHR 0x27]
              @ '' because it is not a Lean 4 workspace.''],
           pending := Map_delete (pending p) path,
           clients := Map_delete (clients p) path,
           disposedClients := disposedClients p @ [cid client]\<rparr>)
      else
        (let p1 = p\<lparr>serverFailedHandlers := serverFailedHandlers p @ [(cid client, path)],
                    pending := Map_delete (pending p) path,
                    clientAddedFired := clientAddedFired p @ [client]\<rparr>
         in if (case versionInfo of None \<Rightarrow> False
                | Some v \<Rightarrow> error v = None \<or> error v = Some []) then
              (AwaitStart client cachedClient,
               p1\<lparr>startedClients := startedClients p1 @ [cid client]\<rparr>)
            else (Returned cachedClient (Some client), p1\<lparr>activeClient := Some client\<rparr>)))"

text \<open>
  The call up to its first \<^verbatim>\<open>await\<close>. The client is allocated and put into \<open>clients\<close>
  before the version is asked for.
\<close>

definition ensureClient_begin ::
  "packageRoot \<Rightarrow> leanClientProvider \<Rightarrow> uri \<Rightarrow> leanVersion option
     \<Rightarrow> ensureStep \<times> leanClientProvider" where
  "ensureClient_begin findLeanPackageRoot p u versionInfo =
     (case folderOf findLeanPackageRoot u of (wsFolder, folder) \<Rightarrow>
      (let path = uriString folder;
           cachedClient = Map_has (clients p) path;
           client = (if cachedClient then Map_get (clients p) path else None)
       in if client = None \<and> \<not> Map_has (pending p) path then
            (let created = \<lparr>cid = nextClient p, workspaceFolder = wsFolder,
                            folderUri = folder\<rparr>;
                 p1 = p\<lparr>pending := Map_set (pending p) path True,
                        consoleLog := consoleLog p @ [''Creating LeanClient for '' @ path],
                        nextClient := nextClient p + 1,
                        subscriptions := subscriptions p @ [created],
                        clients := Map_set (clients p) path created\<rparr>
             in case versionInfo of
                  None \<Rightarrow>
                    (case getLeanVersion_begin findLeanPackageRoot p1 folder of
                       (w, p2) \<Rightarrow> (AwaitVersion path created cachedClient w, p2))
                | Some v \<Rightarrow> ensureClient_versioned p1 path created cachedClient (Some v))
          else (Returned cachedClient client, p\<lparr>activeClient := client\<rparr>)))"

text \<open>
  The call after an \<^verbatim>\<open>await\<close>: \<open>probe\<close> is the answer of
  \<^verbatim>\<open>installer.testLeanVersion\<close>, read only where the call waited for it. After
  \<^verbatim>\<open>client.start()\<close> the call writes \<^verbatim>\<open>activeClient\<close> and returns.
\<close>

fun ensureClient_resume ::
  "leanClientProvider \<Rightarrow> ensureStep \<Rightarrow> leanVersion \<Rightarrow> ensureStep \<times> leanClientProvider" where
  "ensureClient_resume p (AwaitVersion path client cachedClient (VersionReady versionInfo)) probe =
     ensureClient_versioned p path client cachedClient versionInfo"
| "ensureClient_resume p (AwaitVersion path client cachedClient (VersionProbe key)) probe =
     (case getLeanVersion_resume p key probe of
        (versionInfo, p1) \<Rightarrow> ensureClient_versioned p1 path client cachedClient versionInfo)"
| "ensureClient_resume p (AwaitStart client cachedClient) probe =
     (Returned cachedClient (Some client), p\<lparr>activeClient := Some client\<rparr>)"
| "ensureClient_resume p (Returned cachedClient client) probe =
     (Returned cachedClient client, p)"

text \<open>
  Document-opened events for a list of locations, each handled up to its first
  \<^verbatim>\<open>await\<close> (\<^verbatim>\<open>didOpenEditor\<close> calls \<^verbatim>\<open>ensureClient(document.uri, undefined)\<close>):
  the steps reached, in order, and the provider afterwards.
\<close>

fun ensureClient_each ::
  "packageRoot \<Rightarrow> leanClientProvider \<Rightarrow> uri list \<Rightarrow> ensureStep list \<times> leanClientProvider" where
  "ensureClient_each findLeanPackageRoot p [] = ([], p)"
| "ensureClient_each findLeanPackageRoot p (u # us) =
     (case ensureClient_begin findLeanPackageRoot p u None of
        (k, p1) \<Rightarrow>
          (case ensureClient_each findLeanPackageRoot p1 us of
             (ks, p2) \<Rightarrow> (k # ks, p2)))"

text \<open>The folders of the client objects allocated so far, oldest first.\<close>

definition createdFolders :: "leanClientProvider \<Rightarrow> string list" where
  "createdFolders p = map getWorkspaceFolder (subscriptions p)"

subsection \<open>The handler of \<^verbatim>\<open>installer.installChanged\<close>\<close>

text \<open>
  The handler waits for \<^verbatim>\<open>installer.testLeanVersion\<close>, for \<^verbatim>\<open>ensureClient\<close> and for
  \<^verbatim>\<open>client.restart()\<close>; each function below is the code between two of these places.
  \<open>installChanged_caught\<close> is the \<^verbatim>\<open>catch\<close> block followed by the last line.
\<close>

datatype installStep =
    Blocked
  | AwaitTestLeanVersion uri
  | AwaitEnsureClient ensureStep
  | AwaitRestart leanClient
  | Finished

definition installChanged_begin ::
  "packageRoot \<Rightarrow> leanClientProvider \<Rightarrow> uri \<Rightarrow> installStep \<times> leanClientProvider" where
  "installChanged_begin findLeanPackageRoot p u =
     (let path = uriString u in
      if Map_has (testing p) path then
        (Blocked, p\<lparr>consoleLog := consoleLog p @ [''Blocking re-entrancy on '' @ path]\<rparr>)
      else
        (let p1 = p\<lparr>testing := Map_set (testing p) path True\<rparr>;
             packageUri = snd (folderOf findLeanPackageRoot u)
         in (AwaitTestLeanVersion packageUri, p1)))"

definition installChanged_tested ::
  "packageRoot \<Rightarrow> leanClientProvider \<Rightarrow> uri \<Rightarrow> leanVersion
     \<Rightarrow> installStep \<times> leanClientProvider" where
  "installChanged_tested findLeanPackageRoot p u v =
     (let path = uriString u in
      if version v = ''4'' then
        (case ensureClient_begin findLeanPackageRoot p u (Some v) of
           (k, p1) \<Rightarrow> (AwaitEnsureClient k, p1))
      else
        (case error v of
           None \<Rightarrow> (Finished, p\<lparr>testing := Map_delete (testing p) path\<rparr>)
         | Some e \<Rightarrow>
             if e \<noteq> [] then
               (Finished, p\<lparr>consoleLog := consoleLog p @ [''Lean version not ok: '' @ e],
                             testing := Map_delete (testing p) path\<rparr>)
             else (Finished, p\<lparr>testing := Map_delete (testing p) path\<rparr>)))"

definition installChanged_ensured ::
  "leanClientProvider \<Rightarrow> uri \<Rightarrow> bool \<Rightarrow> leanClient option
     \<Rightarrow> installStep \<times> leanClientProvider" where
  "installChanged_ensured p u cached found =
     (let path = uriString u in
      case found of
        None \<Rightarrow> (Finished, p\<lparr>testing := Map_delete (testing p) path\<rparr>)
      | Some c \<Rightarrow>
          if cached then
            (AwaitRestart c, p\<lparr>restartedClients := restartedClients p @ [cid c]\<rparr>)
          else (Finished, p\<lparr>testing := Map_delete (testing p) path\<rparr>))"

definition installChanged_restarted ::
  "leanClientProvider \<Rightarrow> uri \<Rightarrow> installStep \<times> leanClientProvider" where
  "installChanged_restarted p u =
     (Finished, p\<lparr>testing := Map_delete (testing p) (uriString u)\<rparr>)"

definition installChanged_caught ::
  "leanClientProvider \<Rightarrow> uri \<Rightarrow> string \<Rightarrow> installStep \<times> leanClientProvider" where
  "installChanged_caught p u e =
     (Finished, p\<lparr>consoleLog := consoleLog p @ [''Exception checking lean version: '' @ e],
                   testing := Map_delete (testing p) (uriString u)\<rparr>)"

subsection \<open>The handler of \<^verbatim>\<open>workspace.onDidChangeWorkspaceFolders\<close>\<close>

text \<open>
  One removed folder, given by the string of its location. The second component is the
  client the \<^verbatim>\<open>clientRemoved\<close> event carries, if the event fires.
\<close>

definition removeWorkspaceFolder ::
  "leanClientProvider \<Rightarrow> string \<Rightarrow> leanClientProvider \<times> leanClient option" where
  "removeWorkspaceFolder p path =
     (case Map_get (clients p) path of
        Some c \<Rightarrow>
          (p\<lparr>clients := Map_delete (clients p) path,
             versions := Map_delete (versions p) path,
             disposedClients := disposedClients p @ [cid c],
             clientRemovedFired := clientRemovedFired p @ [c]\<rparr>, Some c)
      | None \<Rightarrow> (p, None))"

section \<open>InfoProvider\<close>

datatype js_error = Error string

text \<open>
  Modelled from the spec: the event streams of a connection (\<^verbatim>\<open>client.didChange\<close>,
  \<^verbatim>\<open>didClose\<close>, \<^verbatim>\<open>diagnostics\<close>, \<^verbatim>\<open>customNotification\<close>) are members of
  \<^verbatim>\<open>LeanClient\<close>, missing from the sources. The spec describes them as
  publish/subscribe channels per connection instance, each subscription with its own
  unsubscribe handle: subscribing attaches one more listener to that client and returns
  the handle, disposing the handle detaches that listener and no other.
\<close>

datatype emitter = DidChange | DidClose | Diagnostics | CustomNotification

record listener =
  lid :: nat
  onClient :: nat
  onEvent :: emitter
  forMethod :: string

text \<open>
  \<^verbatim>\<open>RpcSession\<close>. The constructor starts the keep-alive timer with \<^verbatim>\<open>setInterval\<close>;
  \<open>keepAliveInterval\<close> is the number of that timer.
\<close>

record rpcSession =
  keepAliveInterval :: "nat option"
  rpcClient :: leanClient
  sessionId :: string
  sessionUri :: string

text \<open>
  The fields of \<^verbatim>\<open>InfoProvider\<close> the editor API works on; \<open>webviewPanel\<close> tells
  whether the panel is defined. After them the surroundings: \<open>listeners\<close> are the
  listeners now attached to the clients' emitters and \<open>intervals\<close> the timers now
  running, \<open>nextListener\<close> and \<open>nextInterval\<close> number the new ones.
\<close>

record infoProvider =
  webviewPanel :: bool
  serverNotifSubscriptions :: "(string \<times> int \<times> listener list) list"
  clientNotifSubscriptions :: "(string \<times> int \<times> listener list) list"
  rpcSessions :: "(string \<times> rpcSession) list"
  listeners :: "listener list"
  nextListener :: nat
  intervals :: "nat list"
  nextInterval :: nat

definition newInfoProvider :: infoProvider where
  "newInfoProvider = \<lparr>webviewPanel = False, serverNotifSubscriptions = [],
     clientNotifSubscriptions = [], rpcSessions = [], listeners = [], nextListener = 0,
     intervals = [], nextInterval = 0\<rparr>"

definition subscribeOn ::
  "emitter \<Rightarrow> infoProvider \<Rightarrow> leanClient \<Rightarrow> string \<Rightarrow> listener \<times> infoProvider" where
  "subscribeOn e i c method =
     (let h = \<lparr>lid = nextListener i, onClient = cid c, onEvent = e, forMethod = method\<rparr>
      in (h, i\<lparr>listeners := listeners i @ [h], nextListener := nextListener i + 1\<rparr>))"

definition subscribeDidChangeNotification ::
  "infoProvider \<Rightarrow> leanClient \<Rightarrow> string \<Rightarrow> listener \<times> infoProvider" where
  "subscribeDidChangeNotification = subscribeOn DidChange"

definition subscribeDidCloseNotification ::
  "infoProvider \<Rightarrow> leanClient \<Rightarrow> string \<Rightarrow> listener \<times> infoProvider" where
  "subscribeDidCloseNotification = subscribeOn DidClose"

definition subscribeDiagnosticsNotification ::
  "infoProvider \<Rightarrow> leanClient \<Rightarrow> string \<Rightarrow> listener \<times> infoProvider" where
  "subscribeDiagnosticsNotification = subscribeOn Diagnostics"

definition subscribeCustomNotification ::
  "infoProvider \<Rightarrow> leanClient \<Rightarrow> string \<Rightarrow> listener \<times> infoProvider" where
  "subscribeCustomNotification = subscribeOn CustomNotification"

text \<open>\<^verbatim>\<open>h.dispose()\<close> on a handle, and on every handle of an array.\<close>

definition disposeHandle :: "infoProvider \<Rightarrow> listener \<Rightarrow> infoProvider" where
  "disposeHandle i h = i\<lparr>listeners := filter (\<lambda>x. lid x \<noteq> lid h) (listeners i)\<rparr>"

fun disposeHandles :: "infoProvider \<Rightarrow> listener list \<Rightarrow> infoProvider" where
  "disposeHandles i [] = i"
| "disposeHandles i (h # hs) = disposeHandles (disposeHandle i h) hs"

text \<open>
  The loop \<^verbatim>\<open>for (const client of getClients()) subscriptions.push(subscribe(client, method))\<close>,
  with the subscribing function as its first argument.
\<close>

fun subscribeEach ::
  "(infoProvider \<Rightarrow> leanClient \<Rightarrow> string \<Rightarrow> listener \<times> infoProvider)
     \<Rightarrow> infoProvider \<Rightarrow> leanClient list \<Rightarrow> string \<Rightarrow> listener list
     \<Rightarrow> listener list \<times> infoProvider" where
  "subscribeEach sub i [] method acc = (acc, i)"
| "subscribeEach sub i (c # cs) method acc =
     (case sub i c method of (h, i1) \<Rightarrow> subscribeEach sub i1 cs method (acc @ [h]))"

text \<open>
  The four subscription functions of the editor API. The first component of the result
  is the error thrown, if any. Counts are integers: \<^verbatim>\<open>count - 1\<close> has no lower bound.
\<close>

definition subscribeServerNotifications ::
  "infoProvider \<Rightarrow> leanClientProvider \<Rightarrow> string \<Rightarrow> js_error option \<times> infoProvider" where
  "subscribeServerNotifications i p method =
     (case Map_get (serverNotifSubscriptions i) method of
        Some (count, h) \<Rightarrow>
          (None, i\<lparr>serverNotifSubscriptions :=
                      Map_set (serverNotifSubscriptions i) method (count + 1, h)\<rparr>)
      | None \<Rightarrow>
          if method = ''textDocument/publishDiagnostics'' then
            (case subscribeEach subscribeDiagnosticsNotification i (getClients p) method [] of
               (subs, i1) \<Rightarrow>
                 (None, i1\<lparr>serverNotifSubscriptions :=
                              Map_set (serverNotifSubscriptions i1) method (1, subs)\<rparr>))
          else if startsWith method ''$'' then
            (case subscribeEach subscribeCustomNotification i (getClients p) method [] of
               (subs, i1) \<Rightarrow>
                 (None, i1\<lparr>serverNotifSubscriptions :=
                              Map_set (serverNotifSubscriptions i1) method (1, subs)\<rparr>))
          else
            (Some (Error (''subscription to '' @ method
                          @ '' server notifications not implemented'')), i))"

definition unsubscribeServerNotifications ::
  "infoProvider \<Rightarrow> string \<Rightarrow> js_error option \<times> infoProvider" where
  "unsubscribeServerNotifications i method =
     (case Map_get (serverNotifSubscriptions i) method of
        None \<Rightarrow>
          (Some (Error (''trying to unsubscribe from '' @ [CHR 0x27] @ method @ [CHR 0x27]
                        @ '' with no active subscriptions'')), i)
      | Some (count, subs) \<Rightarrow>
          if count = 1 then
            (let i1 = disposeHandles i subs in
             (None, i1\<lparr>serverNotifSubscriptions :=
                          Map_delete (serverNotifSubscriptions i1) method\<rparr>))
          else
            (None, i\<lparr>serverNotifSubscriptions :=
                        Map_set (serverNotifSubscriptions i) method (count - 1, subs)\<rparr>))"

definition subscribeClientNotifications ::
  "infoProvider \<Rightarrow> leanClientProvider \<Rightarrow> string \<Rightarrow> js_error option \<times> infoProvider" where
  "subscribeClientNotifications i p method =
     (case Map_get (clientNotifSubscriptions i) method of
        Some (count, d) \<Rightarrow>
          (None, i\<lparr>clientNotifSubscriptions :=
                      Map_set (clientNotifSubscriptions i) method (count + 1, d)\<rparr>)
      | None \<Rightarrow>
          if method = ''textDocument/didChange'' then
            (case subscribeEach subscribeDidChangeNotification i (getClients p) method [] of
               (subs, i1) \<Rightarrow>
                 (None, i1\<lparr>clientNotifSubscriptions :=
                              Map_set (clientNotifSubscriptions i1) method (1, subs)\<rparr>))
          else if method = ''textDocument/didClose'' then
            (case subscribeEach subscribeDidCloseNotification i (getClients p) method [] of
               (subs, i1) \<Rightarrow>
                 (None, i1\<lparr>clientNotifSubscriptions :=
                              Map_set (clientNotifSubscriptions i1) method (1, subs)\<rparr>))
          else
            (Some (Error (''Subscription to '' @ [CHR 0x27] @ method @ [CHR 0x27]
                          @ '' client notifications not implemented'')), i))"

definition unsubscribeClientNotifications ::
  "infoProvider \<Rightarrow> string \<Rightarrow> js_error option \<times> infoProvider" where
  "unsubscribeClientNotifications i method =
     (case Map_get (clientNotifSubscriptions i) method of
        None \<Rightarrow>
          (Some (Error (''trying to unsubscribe from '' @ [CHR 0x27] @ method @ [CHR 0x27]
                        @ '' with no active subscriptions'')), i)
      | Some (count, subs) \<Rightarrow>
          if count = 1 then
            (let i1 = disposeHandles i subs in
             (None, i1\<lparr>clientNotifSubscriptions :=
                          Map_delete (clientNotifSubscriptions i1) method\<rparr>))
          else
            (None, i\<lparr>clientNotifSubscriptions :=
                        Map_set (clientNotifSubscriptions i) method (count - 1, subs)\<rparr>))"

text \<open>
  The two loops of \<^verbatim>\<open>onClientRestarted\<close>. Each walks a subscription table and pushes
  a new handle for the restarted client onto the array of every entry whose method it
  knows; the array is the one the table holds, so the entry changes with it. The
  messages the function sends to the panel around the loops are left out.
\<close>

fun onClientRestarted_client ::
  "infoProvider \<Rightarrow> leanClient \<Rightarrow> (string \<times> int \<times> listener list) list
     \<Rightarrow> (string \<times> int \<times> listener list) list \<times> infoProvider" where
  "onClientRestarted_client i c [] = ([], i)"
| "onClientRestarted_client i c ((method, count, subs) # rest) =
     (if method = ''textDocument/didChange'' then
        (case subscribeDidChangeNotification i c method of
           (h, i1) \<Rightarrow>
             (case onClientRestarted_client i1 c rest of
                (rest1, i2) \<Rightarrow> ((method, count, subs @ [h]) # rest1, i2)))
      else if method = ''textDocument/didClose'' then
        (case subscribeDidCloseNotification i c method of
           (h, i1) \<Rightarrow>
             (case onClientRestarted_client i1 c rest of
                (rest1, i2) \<Rightarrow> ((method, count, subs @ [h]) # rest1, i2)))
      else
        (case onClientRestarted_client i c rest of
           (rest1, i2) \<Rightarrow> ((method, count, subs) # rest1, i2)))"

fun onClientRestarted_server ::
  "infoProvider \<Rightarrow> leanClient \<Rightarrow> (string \<times> int \<times> listener list) list
     \<Rightarrow> (string \<times> int \<times> listener list) list \<times> infoProvider" where
  "onClientRestarted_server i c [] = ([], i)"
| "onClientRestarted_server i c ((method, count, subs) # rest) =
     (if method = ''textDocument/publishDiagnostics'' then
        (case subscribeDiagnosticsNotification i c method of
           (h, i1) \<Rightarrow>
             (case onClientRestarted_server i1 c rest of
                (rest1, i2) \<Rightarrow> ((method, count, subs @ [h]) # rest1, i2)))
      else if startsWith method ''$'' then
        (case subscribeCustomNotification i c method of
           (h, i1) \<Rightarrow>
             (case onClientRestarted_server i1 c rest of
                (rest1, i2) \<Rightarrow> ((method, count, subs @ [h]) # rest1, i2)))
      else
        (case onClientRestarted_server i c rest of
           (rest1, i2) \<Rightarrow> ((method, count, subs) # rest1, i2)))"

definition onClientRestarted :: "infoProvider \<Rightarrow> leanClient \<Rightarrow> infoProvider" where
  "onClientRestarted i c =
     (case onClientRestarted_client i c (clientNotifSubscriptions i) of
        (ctab, i1) \<Rightarrow>
          (case onClientRestarted_server i1 c (serverNotifSubscriptions i1) of
             (stab, i2) \<Rightarrow>
               i2\<lparr>clientNotifSubscriptions := ctab, serverNotifSubscriptions := stab\<rparr>))"

text \<open>\<^verbatim>\<open>RpcSession.dispose\<close>: the timer is cleared.\<close>

definition RpcSession_dispose :: "infoProvider \<Rightarrow> rpcSession \<Rightarrow> infoProvider" where
  "RpcSession_dispose i sess =
     (case keepAliveInterval sess of
        Some t \<Rightarrow> i\<lparr>intervals := filter (\<lambda>x. x \<noteq> t) (intervals i)\<rparr>
      | None \<Rightarrow> i)"

text \<open>
  \<^verbatim>\<open>clearRpcSessions(client)\<close>; \<open>None\<close> is \<^verbatim>\<open>null\<close>. The loop disposes the sessions of
  the client (all of them for \<^verbatim>\<open>null\<close>) and collects the others in \<open>remaining\<close>.
\<close>

fun clearRpcSessions_loop ::
  "infoProvider \<Rightarrow> leanClient option \<Rightarrow> (string \<times> rpcSession) list
     \<Rightarrow> (string \<times> rpcSession) list \<Rightarrow> (string \<times> rpcSession) list \<times> infoProvider" where
  "clearRpcSessions_loop i c [] remaining = (remaining, i)"
| "clearRpcSessions_loop i c ((sid, sess) # rest) remaining =
     (if c = None \<or> Some (cid (rpcClient sess)) = map_option cid c then
        clearRpcSessions_loop (RpcSession_dispose i sess) c rest remaining
      else clearRpcSessions_loop i c rest (Map_set remaining sid sess))"

definition clearRpcSessions :: "infoProvider \<Rightarrow> leanClient option \<Rightarrow> infoProvider" where
  "clearRpcSessions i c =
     (case clearRpcSessions_loop i c (rpcSessions i) [] of
        (remaining, i1) \<Rightarrow> i1\<lparr>rpcSessions := remaining\<rparr>)"

text \<open>
  The listener \<^verbatim>\<open>onClientAdded\<close> attaches to \<^verbatim>\<open>client.restarted\<close>, run when the client
  starts for the first time and when it restarts: the sessions of the client are
  cleared, then \<^verbatim>\<open>onClientRestarted\<close> runs. The two are composed directly; the
  message to the panel that the source awaits between them is left out.
\<close>

definition client_restarted :: "infoProvider \<Rightarrow> leanClient \<Rightarrow> infoProvider" where
  "client_restarted i c = onClientRestarted (clearRpcSessions i (Some c)) c"

text \<open>\<^verbatim>\<open>onClientRemoved\<close> has an empty body.\<close>

definition onClientRemoved :: "infoProvider \<Rightarrow> leanClient \<Rightarrow> infoProvider" where
  "onClientRemoved i c = i"

text \<open>
  The removal of workspace folders as the whole extension sees it: the provider's
  handler for each folder, and \<^verbatim>\<open>onClientRemoved\<close> for each event it fires.
\<close>

fun onDidChangeWorkspaceFolders ::
  "leanClientProvider \<times> infoProvider \<Rightarrow> string list \<Rightarrow> leanClientProvider \<times> infoProvider" where
  "onDidChangeWorkspaceFolders (p, i) [] = (p, i)"
| "onDidChangeWorkspaceFolders (p, i) (path # removed) =
     (case removeWorkspaceFolder p path of
        (p1, Some c) \<Rightarrow> onDidChangeWorkspaceFolders (p1, onClientRemoved i c) removed
      | (p1, None) \<Rightarrow> onDidChangeWorkspaceFolders (p1, i) removed)"

text \<open>
  \<^verbatim>\<open>createRpcSession\<close> waits once, for the answer to \<^verbatim>\<open>$/lean/rpc/connect\<close>;
  \<open>createRpcSession_connected\<close> is the code after it, given the session identifier of
  the answer.
\<close>

datatype rpcStep =
    RpcReturned string
  | RpcAwaitConnect leanClient string
  | RpcThrown js_error

definition createRpcSession_begin ::
  "infoProvider \<Rightarrow> leanClientProvider \<Rightarrow> string \<Rightarrow> rpcStep \<times> infoProvider" where
  "createRpcSession_begin i p u =
     (case findClient p u of
        None \<Rightarrow> (RpcReturned [], i)
      | Some c \<Rightarrow> (RpcAwaitConnect c u, i))"

definition createRpcSession_connected ::
  "infoProvider \<Rightarrow> leanClient \<Rightarrow> string \<Rightarrow> string \<Rightarrow> rpcStep \<times> infoProvider" where
  "createRpcSession_connected i c u sid =
     (let session = \<lparr>keepAliveInterval = Some (nextInterval i), rpcClient = c,
                      sessionId = sid, sessionUri = u\<rparr>;
          i1 = i\<lparr>intervals := intervals i @ [nextInterval i],
                 nextInterval := nextInterval i + 1\<rparr>
      in if \<not> webviewPanel i1 then
           (RpcThrown (Error ''infoview disconnect while connecting to RPC session''),
            RpcSession_dispose i1 session)
         else
           (RpcReturned sid, i1\<lparr>rpcSessions := Map_set (rpcSessions i1) sid session\<rparr>))"

definition closeRpcSession :: "infoProvider \<Rightarrow> string \<Rightarrow> infoProvider" where
  "closeRpcSession i sid =
     (case Map_get (rpcSessions i) sid of
        Some session \<Rightarrow>
          RpcSession_dispose (i\<lparr>rpcSessions := Map_delete (rpcSessions i) sid\<rparr>) session
      | None \<Rightarrow> i)"

text \<open>
  What the claims speak of: the reference count of a method in a table, the listeners
  of a method attached to a client, the sessions a client owns, and whether the
  heartbeat of a session runs.
\<close>

definition refCount :: "(string \<times> int \<times> listener list) list \<Rightarrow> string \<Rightarrow> int" where
  "refCount tab method = (case Map_get tab method of Some (count, subs) \<Rightarrow> count | None \<Rightarrow> 0)"

definition countsPositive :: "(string \<times> int \<times> listener list) list \<Rightarrow> bool" where
  "countsPositive tab = list_all (\<lambda>e. 0 < fst (snd e)) tab"

definition handlersOf :: "infoProvider \<Rightarrow> nat \<Rightarrow> string \<Rightarrow> listener list" where
  "handlersOf i k method =
     filter (\<lambda>h. onClient h = k \<and> forMethod h = method) (listeners i)"

definition sessionsOf :: "infoProvider \<Rightarrow> nat \<Rightarrow> string list" where
  "sessionsOf i k = map fst (filter (\<lambda>e. cid (rpcClient (snd e)) = k) (rpcSessions i))"

definition heartbeatRuns :: "infoProvider \<Rightarrow> rpcSession \<Rightarrow> bool" where
  "heartbeatRuns i sess =
     (case keepAliveInterval sess of Some t \<Rightarrow> t \<in> set (intervals i) | None \<Rightarrow> False)"

section \<open>A workspace with a nested project\<close>

text \<open>
  The workspace folder \<^verbatim>\<open>file:///ws\<close> holds a package of its own and a second one in
  \<^verbatim>\<open>file:///ws/Foo\<close>. \<open>nestedProvider\<close> is the provider after a document of the
  outer package and then one of the inner package were opened with a known Lean 4.
\<close>

definition exampleRoots :: packageRoot where
  "exampleRoots u =
     (if startsWith (uriString u) ''file:///ws/Foo''
      then (Some ''file:///ws'', Some \<lparr>scheme = ''file'', uriString = ''file:///ws/Foo''\<rparr>, None)
      else if startsWith (uriString u) ''file:///ws''
      then (Some ''file:///ws'', Some \<lparr>scheme = ''file'', uriString = ''file:///ws''\<rparr>, None)
      else (None, None, None))"

definition lean4 :: leanVersion where
  "lean4 = \<lparr>version = ''4'', error = None\<rparr>"

definition lean3 :: leanVersion where
  "lean3 = \<lparr>version = ''3'', error = None\<rparr>"

definition mainDoc :: uri where
  "mainDoc = \<lparr>scheme = ''file'', uriString = ''file:///ws/Main.lean''\<rparr>"

definition barDoc :: uri where
  "barDoc = \<lparr>scheme = ''file'', uriString = ''file:///ws/Foo/Bar.lean''\<rparr>"

definition nestedProvider :: leanClientProvider where
  "nestedProvider =
     snd (ensureClient_begin exampleRoots
            (snd (ensureClient_begin exampleRoots newProvider mainDoc (Some lean4)))
            barDoc (Some lean4))"


text \<open>
  Two packages side by side, \<^verbatim>\<open>file:///a/proj\<close> and \<^verbatim>\<open>file:///a/proj2\<close>, neither
  inside the other. \<open>siblingProvider\<close> is the provider after a document of the first
  and then one of the second were opened with a known Lean 4.
\<close>

definition siblingRoots :: packageRoot where
  "siblingRoots u =
     (if startsWith (uriString u) ''file:///a/proj2/''
      then (None, Some \<lparr>scheme = ''file'', uriString = ''file:///a/proj2''\<rparr>, None)
      else if startsWith (uriString u) ''file:///a/proj/''
      then (None, Some \<lparr>scheme = ''file'', uriString = ''file:///a/proj''\<rparr>, None)
      else (None, None, None))"

definition projDoc :: uri where
  "projDoc = \<lparr>scheme = ''file'', uriString = ''file:///a/proj/A.lean''\<rparr>"

definition proj2Doc :: uri where
  "proj2Doc = \<lparr>scheme = ''file'', uriString = ''file:///a/proj2/B.lean''\<rparr>"

definition siblingProvider :: leanClientProvider where
  "siblingProvider =
     snd (ensureClient_begin siblingRoots
            (snd (ensureClient_begin siblingRoots newProvider projDoc (Some lean4)))
            proj2Doc (Some lean4))"

section \<open>Subscriptions of the panel in the nested workspace\<close>

text \<open>
  The invariant of the two subscription tables: every entry has a positive count.
\<close>

definition subscriptionInvariant :: "infoProvider \<Rightarrow> bool" where
  "subscriptionInvariant i \<longleftrightarrow>
     countsPositive (serverNotifSubscriptions i) \<and> countsPositive (clientNotifSubscriptions i)"

text \<open>
  The panel is open; it subscribes to the diagnostics of the server and to the changes
  of the documents, once and then a second time.
\<close>

definition panelOpen :: infoProvider where
  "panelOpen = newInfoProvider\<lparr>webviewPanel := True\<rparr>"

definition subscribedOnce :: infoProvider where
  "subscribedOnce =
     snd (subscribeClientNotifications
            (snd (subscribeServerNotifications panelOpen nestedProvider
                    ''textDocument/publishDiagnostics''))
            nestedProvider ''textDocument/didChange'')"

definition subscribedTwice :: infoProvider where
  "subscribedTwice =
     snd (subscribeClientNotifications
            (snd (subscribeServerNotifications subscribedOnce nestedProvider
                    ''textDocument/publishDiagnostics''))
            nestedProvider ''textDocument/didChange'')"


definition publishDiagnostics :: string where
  "publishDiagnostics = ''textDocument/publishDiagnostics''"

definition didChange :: string where
  "didChange = ''textDocument/didChange''"

definition diagnosticsHandles :: "listener list" where
  "diagnosticsHandles =
     [\<lparr>lid = 0, onClient = 0, onEvent = Diagnostics, forMethod = publishDiagnostics\<rparr>,
      \<lparr>lid = 1, onClient = 1, onEvent = Diagnostics, forMethod = publishDiagnostics\<rparr>]"

definition didChangeHandles :: "listener list" where
  "didChangeHandles =
     [\<lparr>lid = 2, onClient = 0, onEvent = DidChange, forMethod = didChange\<rparr>,
      \<lparr>lid = 3, onClient = 1, onEvent = DidChange, forMethod = didChange\<rparr>]"

text \<open>
  The client of the outer package, and the panel after it opened an RPC session for a
  document of that package (the server answered with the identifier \<^verbatim>\<open>s1\<close>).
\<close>

definition outerClient :: leanClient where
  "outerClient = getClients nestedProvider ! 0"

definition withSession :: infoProvider where
  "withSession =
     snd (createRpcSession_connected subscribedOnce outerClient ''file:///ws/Main.lean'' ''s1'')"

section \<open>Notions for the properties of \<^verbatim>\<open>ensureClient\<close>\<close>

text \<open>
  The object \<^verbatim>\<open>new LeanClient\<close> yields when \<^verbatim>\<open>ensureClient\<close> creates a client for a
  location, and the version a waiting call goes on with: the one that was ready, or the
  answer of the installer.
\<close>

definition createdClient :: "packageRoot \<Rightarrow> leanClientProvider \<Rightarrow> uri \<Rightarrow> leanClient" where
  "createdClient findLeanPackageRoot p u =
     \<lparr>cid = nextClient p, workspaceFolder = fst (folderOf findLeanPackageRoot u),
        folderUri = snd (folderOf findLeanPackageRoot u)\<rparr>"

definition resolvedVersion :: "versionWait \<Rightarrow> leanVersion \<Rightarrow> leanVersion option" where
  "resolvedVersion w probe =
     (case w of VersionReady versionInfo \<Rightarrow> versionInfo | VersionProbe key \<Rightarrow> Some probe)"

text \<open>
  A document of the inner package is opened in a new provider (\<open>fooOpened\<close>), the
  installer answers Lean 3 (\<open>fooRejected\<close>), and the document is opened again
  (\<open>fooReopened\<close>). \<open>lean4Prompting\<close> is the answer of an installer that found Lean 4
  but reports an error while it asks the user. \<open>busyProvider\<close> is the nested workspace
  while a toolchain change signalled for \<open>barDoc\<close> is being handled.
\<close>

definition fooOpened :: "ensureStep \<times> leanClientProvider" where
  "fooOpened = ensureClient_begin exampleRoots newProvider barDoc None"

definition fooRejected :: "ensureStep \<times> leanClientProvider" where
  "fooRejected = ensureClient_resume (snd fooOpened) (fst fooOpened) lean3"

definition fooReopened :: "ensureStep \<times> leanClientProvider" where
  "fooReopened = ensureClient_begin exampleRoots (snd fooRejected) barDoc None"

definition fooClient :: leanClient where
  "fooClient = \<lparr>cid = 0, workspaceFolder = Some ''file:///ws'',
                 folderUri = \<lparr>scheme = ''file'', uriString = ''file:///ws/Foo''\<rparr>\<rparr>"

definition bazDoc :: uri where
  "bazDoc = \<lparr>scheme = ''file'', uriString = ''file:///ws/Foo/Baz.lean''\<rparr>"


definition lean4Prompting :: leanVersion where
  "lean4Prompting = \<lparr>version = ''4'', error = Some ''no default toolchain''\<rparr>"

definition busyProvider :: leanClientProvider where
  "busyProvider = snd (installChanged_begin exampleRoots nestedProvider barDoc)"

definition innerClient :: leanClient where
  "innerClient = getClients nestedProvider ! 1"

section \<open>Properties\<close>

lemma Map_get_set: "Map_get (Map_set m k v) k' = (if k' = k then Some v else Map_get m k')"
  by (induction m) (auto simp: Map_get_def)

lemma Map_get_delete:
  "Map_get (Map_delete m k) k' = (if k' = k then None else Map_get m k')"
  by (induction m) (auto simp: Map_get_def Map_delete_def)

lemma Map_has_get: "Map_has m k \<longleftrightarrow> Map_get m k \<noteq> None"
  by (simp add: Map_has_def Map_get_def)

subsection \<open>Finding the client of a document\<close>

lemma findClient_loop_Some:
  "findClient_loop cs path = Some c \<longleftrightarrow>
     (\<exists>n < length cs. cs ! n = c \<and> startsWith path (getWorkspaceFolder c) \<and>
        (\<forall>m < n. \<not> startsWith path (getWorkspaceFolder (cs ! m))))"
proof (induction cs)
  case Nil
  then show ?case by simp
next
  case (Cons a cs)
  show ?case
  proof (cases "startsWith path (getWorkspaceFolder a)")
    case True
    have "(\<exists>n < length (a # cs). (a # cs) ! n = c \<and> startsWith path (getWorkspaceFolder c) \<and>
        (\<forall>m < n. \<not> startsWith path (getWorkspaceFolder ((a # cs) ! m)))) \<longleftrightarrow> a = c"
    proof
      assume "\<exists>n < length (a # cs). (a # cs) ! n = c \<and> startsWith path (getWorkspaceFolder c) \<and>
        (\<forall>m < n. \<not> startsWith path (getWorkspaceFolder ((a # cs) ! m)))"
      then obtain n where n: "n < length (a # cs)" "(a # cs) ! n = c"
        "\<forall>m < n. \<not> startsWith path (getWorkspaceFolder ((a # cs) ! m))" by blast
      have "n = 0"
      proof (rule ccontr)
        assume "n \<noteq> 0"
        then have "0 < n" by simp
        with n(3) have "\<not> startsWith path (getWorkspaceFolder ((a # cs) ! 0))" by blast
        with True show False by simp
      qed
      with n(2) show "a = c" by simp
    next
      assume "a = c"
      with True show "\<exists>n < length (a # cs). (a # cs) ! n = c \<and> startsWith path (getWorkspaceFolder c) \<and>
        (\<forall>m < n. \<not> startsWith path (getWorkspaceFolder ((a # cs) ! m)))"
        by (intro exI[of _ 0]) simp
    qed
    with True show ?thesis by simp
  next
    case False
    have "(\<exists>n < length (a # cs). (a # cs) ! n = c \<and> startsWith path (getWorkspaceFolder c) \<and>
        (\<forall>m < n. \<not> startsWith path (getWorkspaceFolder ((a # cs) ! m)))) \<longleftrightarrow>
       (\<exists>n < length cs. cs ! n = c \<and> startsWith path (getWorkspaceFolder c) \<and>
        (\<forall>m < n. \<not> startsWith path (getWorkspaceFolder (cs ! m))))" (is "?L \<longleftrightarrow> ?R")
    proof
      assume ?L
      then obtain n where n: "n < length (a # cs)" "(a # cs) ! n = c"
        "startsWith path (getWorkspaceFolder c)"
        "\<forall>m < n. \<not> startsWith path (getWorkspaceFolder ((a # cs) ! m))" by blast
      from n(2,3) False have "n \<noteq> 0" by (cases n) auto
      then obtain k where k: "n = Suc k" by (cases n) auto
      have "\<forall>m < k. \<not> startsWith path (getWorkspaceFolder (cs ! m))"
      proof (intro allI impI)
        fix m assume "m < k"
        then have "Suc m < n" using k by simp
        with n(4) have "\<not> startsWith path (getWorkspaceFolder ((a # cs) ! Suc m))" by blast
        then show "\<not> startsWith path (getWorkspaceFolder (cs ! m))" by simp
      qed
      with n k show ?R by (intro exI[of _ k]) simp
    next
      assume ?R
      then obtain n where n: "n < length cs" "cs ! n = c"
        "startsWith path (getWorkspaceFolder c)"
        "\<forall>m < n. \<not> startsWith path (getWorkspaceFolder (cs ! m))" by blast
      have "\<forall>m < Suc n. \<not> startsWith path (getWorkspaceFolder ((a # cs) ! m))"
      proof (intro allI impI)
        fix m assume "m < Suc n"
        show "\<not> startsWith path (getWorkspaceFolder ((a # cs) ! m))"
        proof (cases m)
          case 0 with False show ?thesis by simp
        next
          case (Suc j)
          with \<open>m < Suc n\<close> n(4) show ?thesis by simp
        qed
      qed
      with n show ?L by (intro exI[of _ "Suc n"]) simp
    qed
    with False Cons.IH show ?thesis by simp
  qed
qed

lemma findClient_loop_None:
  "findClient_loop cs path = None \<longleftrightarrow>
     (\<forall>c \<in> set cs. \<not> startsWith path (getWorkspaceFolder c))"
  by (induction cs) auto


text \<open>
  What the loop of \<^verbatim>\<open>findClient\<close> computes: the first client, in the order the
  registry lists them (insertion order), whose folder string is a prefix of the path,
  and nothing exactly when the path is empty or no folder is a prefix. The length of
  the folder plays no part.
\<close>

lemma findClient_first_match:
  "(findClient p path = Some c \<longleftrightarrow>
      path \<noteq> [] \<and>
      (\<exists>n < length (getClients p). getClients p ! n = c \<and>
         startsWith path (getWorkspaceFolder c) \<and>
         (\<forall>m < n. \<not> startsWith path (getWorkspaceFolder (getClients p ! m))))) \<and>
   (findClient p path = None \<longleftrightarrow>
      path = [] \<or> (\<forall>c \<in> set (getClients p). \<not> startsWith path (getWorkspaceFolder c)))"
  unfolding findClient_def
  using findClient_loop_Some [of "getClients p" path c] findClient_loop_None [of "getClients p" path]
  by simp

lemma nestedProvider_clients:
  "getClients nestedProvider =
     [\<lparr>cid = 0, workspaceFolder = Some ''file:///ws'',
        folderUri = \<lparr>scheme = ''file'', uriString = ''file:///ws''\<rparr>\<rparr>,
      \<lparr>cid = 1, workspaceFolder = Some ''file:///ws'',
        folderUri = \<lparr>scheme = ''file'', uriString = ''file:///ws/Foo''\<rparr>\<rparr>]"
  by code_simp

text \<open>
  Claim C1 at a concrete input. In the nested workspace the outer package was
  registered before the inner one. A document of the inner package is opened on the
  inner client: \<^verbatim>\<open>ensureClient\<close>, which looks the package folder up by its exact
  string, returns that client as cached. \<^verbatim>\<open>findClient\<close> gives the same document the
  outer client, the first whose folder is a prefix, although the inner folder is a
  prefix too and the longer one. Side by side the same happens without nesting:
  \<^verbatim>\<open>file:///a/proj\<close> is a textual prefix of \<^verbatim>\<open>file:///a/proj2/B.lean\<close>, so the
  document of the second package gets the client of the first.
\<close>

theorem findClient_nested_misroutes:
  "fst (ensureClient_begin exampleRoots nestedProvider barDoc None)
     = Returned True (Some innerClient) \<and>
   findClient nestedProvider (uriString barDoc) = Some outerClient \<and>
   cid outerClient = 0 \<and> cid innerClient = 1 \<and>
   getWorkspaceFolder outerClient = ''file:///ws'' \<and>
   getWorkspaceFolder innerClient = ''file:///ws/Foo'' \<and>
   startsWith (uriString barDoc) (getWorkspaceFolder innerClient) \<and>
   length (getWorkspaceFolder outerClient) < length (getWorkspaceFolder innerClient) \<and>
   fst (ensureClient_begin siblingRoots siblingProvider proj2Doc None)
     = Returned True (Some (getClients siblingProvider ! 1)) \<and>
   findClient siblingProvider (uriString proj2Doc) = Some (getClients siblingProvider ! 0) \<and>
   getWorkspaceFolder (getClients siblingProvider ! 0) = ''file:///a/proj'' \<and>
   getWorkspaceFolder (getClients siblingProvider ! 1) = ''file:///a/proj2''"
  by code_simp

lemma findClient_first_match_at_nested:
  "findClient nestedProvider ''file:///ws/Foo/Bar.lean'' = Some (getClients nestedProvider ! 0) \<and>
   (\<exists>n < length (getClients nestedProvider).
      getClients nestedProvider ! n = getClients nestedProvider ! 0 \<and>
      startsWith ''file:///ws/Foo/Bar.lean'' (getWorkspaceFolder (getClients nestedProvider ! 0)) \<and>
      (\<forall>m < n. \<not> startsWith ''file:///ws/Foo/Bar.lean''
                    (getWorkspaceFolder (getClients nestedProvider ! m))))"
proof -
  have f: "findClient nestedProvider ''file:///ws/Foo/Bar.lean'' = Some (getClients nestedProvider ! 0)"
    by (simp add: findClient_def nestedProvider_clients getWorkspaceFolder_def startsWith_def)
  from f findClient_first_match [of nestedProvider "''file:///ws/Foo/Bar.lean''"
      "getClients nestedProvider ! 0"]
  show ?thesis by blast
qed

subsection \<open>Reference counts of subscriptions\<close>

lemma countsPositive_set:
  "countsPositive tab \<Longrightarrow> 0 < n \<Longrightarrow> countsPositive (Map_set tab m (n, hs))"
  by (induction tab) (auto simp: countsPositive_def)

lemma countsPositive_delete: "countsPositive tab \<Longrightarrow> countsPositive (Map_delete tab m)"
  by (simp add: countsPositive_def Map_delete_def list_all_iff)

lemma countsPositive_get:
  "countsPositive tab \<Longrightarrow> Map_get tab m = Some (n, hs) \<Longrightarrow> 0 < n"
  by (auto simp: countsPositive_def Map_get_def list_all_iff dest!: map_of_SomeD)

lemma countsPositive_refCount:
  "countsPositive tab \<Longrightarrow> (0 < refCount tab m \<longleftrightarrow> Map_has tab m)"
  by (auto simp: refCount_def Map_has_get dest: countsPositive_get split: option.splits)

lemma disposeHandles_tables [simp]:
  "serverNotifSubscriptions (disposeHandles i hs) = serverNotifSubscriptions i"
  "clientNotifSubscriptions (disposeHandles i hs) = clientNotifSubscriptions i"
  "rpcSessions (disposeHandles i hs) = rpcSessions i"
  "intervals (disposeHandles i hs) = intervals i"
  by (induction hs arbitrary: i) (simp_all add: disposeHandle_def)

lemma disposeHandles_listeners:
  "listeners (disposeHandles i hs) = filter (\<lambda>x. lid x \<notin> lid ` set hs) (listeners i)"
  by (induction hs arbitrary: i) (auto simp: disposeHandle_def intro: filter_cong)

lemma subscribeEach_tables:
  assumes "\<And>j c m. serverNotifSubscriptions (snd (sub j c m)) = serverNotifSubscriptions j"
      and "\<And>j c m. clientNotifSubscriptions (snd (sub j c m)) = clientNotifSubscriptions j"
  shows "serverNotifSubscriptions (snd (subscribeEach sub i cs meth hs0)) = serverNotifSubscriptions i
       \<and> clientNotifSubscriptions (snd (subscribeEach sub i cs meth hs0)) = clientNotifSubscriptions i"
proof (induction cs arbitrary: i hs0)
  case Nil
  show ?case by simp
next
  case (Cons c cs)
  obtain h i1 where s: "sub i c meth = (h, i1)" by (cases "sub i c meth")
  from assms [of i c meth] s
  have "serverNotifSubscriptions i1 = serverNotifSubscriptions i"
       "clientNotifSubscriptions i1 = clientNotifSubscriptions i" by simp_all
  with Cons.IH [of i1 "hs0 @ [h]"] s show ?case by simp
qed

lemma subscribeOn_tables [simp]:
  "serverNotifSubscriptions (snd (subscribeOn e j c m)) = serverNotifSubscriptions j"
  "clientNotifSubscriptions (snd (subscribeOn e j c m)) = clientNotifSubscriptions j"
  by (simp_all add: subscribeOn_def Let_def)

lemma subscribeEach_on_tables [simp]:
  "serverNotifSubscriptions (snd (subscribeEach (subscribeOn e) i cs meth hs0)) = serverNotifSubscriptions i"
  "clientNotifSubscriptions (snd (subscribeEach (subscribeOn e) i cs meth hs0)) = clientNotifSubscriptions i"
  using subscribeEach_tables [of "subscribeOn e" i cs meth hs0] by simp_all

lemma subscribeServer_invariant:
  "subscriptionInvariant i \<Longrightarrow> subscriptionInvariant (snd (subscribeServerNotifications i p m))"
  unfolding subscriptionInvariant_def subscribeServerNotifications_def
    subscribeDiagnosticsNotification_def subscribeCustomNotification_def
  by (auto split: option.splits prod.splits
      intro!: countsPositive_set dest: countsPositive_get
      simp: split_beta)


lemma subscribeClient_invariant:
  "subscriptionInvariant i \<Longrightarrow> subscriptionInvariant (snd (subscribeClientNotifications i p m))"
  unfolding subscriptionInvariant_def subscribeClientNotifications_def
    subscribeDidChangeNotification_def subscribeDidCloseNotification_def
  by (auto split: option.splits prod.splits
      intro!: countsPositive_set dest: countsPositive_get
      simp: split_beta)

lemma unsubscribeServer_invariant:
  "subscriptionInvariant i \<Longrightarrow> subscriptionInvariant (snd (unsubscribeServerNotifications i m))"
proof -
  assume inv: "subscriptionInvariant i"
  show ?thesis
  proof (cases "Map_get (serverNotifSubscriptions i) m")
    case None
    with inv show ?thesis by (simp add: unsubscribeServerNotifications_def)
  next
    case (Some e)
    obtain n hs where e: "e = (n, hs)" by (cases e)
    from inv Some e have "0 < n"
      by (auto simp: subscriptionInvariant_def dest: countsPositive_get)
    then have "n \<noteq> 1 \<Longrightarrow> 0 < n - 1" by simp
    with inv Some e show ?thesis
      by (simp add: unsubscribeServerNotifications_def subscriptionInvariant_def Let_def
          countsPositive_set countsPositive_delete)
  qed
qed

lemma unsubscribeClient_invariant:
  "subscriptionInvariant i \<Longrightarrow> subscriptionInvariant (snd (unsubscribeClientNotifications i m))"
proof -
  assume inv: "subscriptionInvariant i"
  show ?thesis
  proof (cases "Map_get (clientNotifSubscriptions i) m")
    case None
    with inv show ?thesis by (simp add: unsubscribeClientNotifications_def)
  next
    case (Some e)
    obtain n hs where e: "e = (n, hs)" by (cases e)
    from inv Some e have "0 < n"
      by (auto simp: subscriptionInvariant_def dest: countsPositive_get)
    then have "n \<noteq> 1 \<Longrightarrow> 0 < n - 1" by simp
    with inv Some e show ?thesis
      by (simp add: unsubscribeClientNotifications_def subscriptionInvariant_def Let_def
          countsPositive_set countsPositive_delete)
  qed
qed

lemma unsubscribeServer_decrement:
  assumes "Map_get (serverNotifSubscriptions i) m = Some (n, hs)" and "1 < n"
  shows "unsubscribeServerNotifications i m =
           (None, i\<lparr>serverNotifSubscriptions :=
                       Map_set (serverNotifSubscriptions i) m (n - 1, hs)\<rparr>)"
    and "Map_get (serverNotifSubscriptions (snd (unsubscribeServerNotifications i m))) m
           = Some (n - 1, hs)"
    and "listeners (snd (unsubscribeServerNotifications i m)) = listeners i"
  using assms by (simp_all add: unsubscribeServerNotifications_def Map_get_set)

lemma unsubscribeServer_last:
  assumes "Map_get (serverNotifSubscriptions i) m = Some (1, hs)"
  shows "fst (unsubscribeServerNotifications i m) = None"
    and "\<not> Map_has (serverNotifSubscriptions (snd (unsubscribeServerNotifications i m))) m"
    and "\<forall>h \<in> set hs. \<forall>l \<in> set (listeners (snd (unsubscribeServerNotifications i m))).
           lid l \<noteq> lid h"
  using assms
  by (auto simp: unsubscribeServerNotifications_def Let_def Map_has_get Map_get_delete
      disposeHandles_listeners)

lemma unsubscribeServer_absent:
  assumes "\<not> Map_has (serverNotifSubscriptions i) m"
  shows "\<exists>e. unsubscribeServerNotifications i m = (Some e, i)"
  using assms
  by (cases "Map_get (serverNotifSubscriptions i) m")
     (simp_all add: unsubscribeServerNotifications_def Map_has_get)

lemma unsubscribeClient_decrement:
  assumes "Map_get (clientNotifSubscriptions i) m = Some (n, hs)" and "1 < n"
  shows "unsubscribeClientNotifications i m =
           (None, i\<lparr>clientNotifSubscriptions :=
                       Map_set (clientNotifSubscriptions i) m (n - 1, hs)\<rparr>)"
    and "Map_get (clientNotifSubscriptions (snd (unsubscribeClientNotifications i m))) m
           = Some (n - 1, hs)"
    and "listeners (snd (unsubscribeClientNotifications i m)) = listeners i"
  using assms by (simp_all add: unsubscribeClientNotifications_def Map_get_set)

lemma unsubscribeClient_last:
  assumes "Map_get (clientNotifSubscriptions i) m = Some (1, hs)"
  shows "fst (unsubscribeClientNotifications i m) = None"
    and "\<not> Map_has (clientNotifSubscriptions (snd (unsubscribeClientNotifications i m))) m"
    and "\<forall>h \<in> set hs. \<forall>l \<in> set (listeners (snd (unsubscribeClientNotifications i m))).
           lid l \<noteq> lid h"
  using assms
  by (auto simp: unsubscribeClientNotifications_def Let_def Map_has_get Map_get_delete
      disposeHandles_listeners)

lemma unsubscribeClient_absent:
  assumes "\<not> Map_has (clientNotifSubscriptions i) m"
  shows "\<exists>e. unsubscribeClientNotifications i m = (Some e, i)"
  using assms
  by (cases "Map_get (clientNotifSubscriptions i) m")
     (simp_all add: unsubscribeClientNotifications_def Map_has_get)

text \<open>
  Claim C4, for the table of server notifications and for the table of client
  notifications alike. Unsubscribing a method whose count \<open>n\<close> exceeds 1 throws nothing,
  leaves the entry with count \<open>n - 1\<close> and the same handles, and detaches no listener.
  Unsubscribing at count 1 throws nothing, deletes the entry, and no listener of its
  handles stays attached. Unsubscribing a method without entry throws an error and
  returns the state as it was. When every entry has a positive count, a method's count
  is positive exactly if it has an entry, and each of the four subscription functions
  keeps every count positive.
\<close>

theorem unsubscribe_reference_counting:
  "(Map_get (serverNotifSubscriptions i) m = Some (n, hs) \<and> 1 < n \<longrightarrow>
      fst (unsubscribeServerNotifications i m) = None \<and>
      Map_get (serverNotifSubscriptions (snd (unsubscribeServerNotifications i m))) m
        = Some (n - 1, hs) \<and>
      listeners (snd (unsubscribeServerNotifications i m)) = listeners i) \<and>
   (Map_get (serverNotifSubscriptions i) m = Some (1, hs) \<longrightarrow>
      fst (unsubscribeServerNotifications i m) = None \<and>
      \<not> Map_has (serverNotifSubscriptions (snd (unsubscribeServerNotifications i m))) m \<and>
      (\<forall>h \<in> set hs. \<forall>l \<in> set (listeners (snd (unsubscribeServerNotifications i m))).
         lid l \<noteq> lid h)) \<and>
   (\<not> Map_has (serverNotifSubscriptions i) m \<longrightarrow>
      (\<exists>e. unsubscribeServerNotifications i m = (Some e, i))) \<and>
   (Map_get (clientNotifSubscriptions i) m = Some (n, hs) \<and> 1 < n \<longrightarrow>
      fst (unsubscribeClientNotifications i m) = None \<and>
      Map_get (clientNotifSubscriptions (snd (unsubscribeClientNotifications i m))) m
        = Some (n - 1, hs) \<and>
      listeners (snd (unsubscribeClientNotifications i m)) = listeners i) \<and>
   (Map_get (clientNotifSubscriptions i) m = Some (1, hs) \<longrightarrow>
      fst (unsubscribeClientNotifications i m) = None \<and>
      \<not> Map_has (clientNotifSubscriptions (snd (unsubscribeClientNotifications i m))) m \<and>
      (\<forall>h \<in> set hs. \<forall>l \<in> set (listeners (snd (unsubscribeClientNotifications i m))).
         lid l \<noteq> lid h)) \<and>
   (\<not> Map_has (clientNotifSubscriptions i) m \<longrightarrow>
      (\<exists>e. unsubscribeClientNotifications i m = (Some e, i))) \<and>
   (subscriptionInvariant i \<longrightarrow>
      (0 < refCount (serverNotifSubscriptions i) m
         \<longleftrightarrow> Map_has (serverNotifSubscriptions i) m) \<and>
      (0 < refCount (clientNotifSubscriptions i) m
         \<longleftrightarrow> Map_has (clientNotifSubscriptions i) m) \<and>
      subscriptionInvariant (snd (subscribeServerNotifications i p m)) \<and>
      subscriptionInvariant (snd (unsubscribeServerNotifications i m)) \<and>
      subscriptionInvariant (snd (subscribeClientNotifications i p m)) \<and>
      subscriptionInvariant (snd (unsubscribeClientNotifications i m)))"
proof (intro conjI impI)
  assume "subscriptionInvariant i"
  then show "0 < refCount (serverNotifSubscriptions i) m
         \<longleftrightarrow> Map_has (serverNotifSubscriptions i) m"
    by (simp add: subscriptionInvariant_def countsPositive_refCount)
next
  assume "subscriptionInvariant i"
  then show "0 < refCount (clientNotifSubscriptions i) m
         \<longleftrightarrow> Map_has (clientNotifSubscriptions i) m"
    by (simp add: subscriptionInvariant_def countsPositive_refCount)
qed (simp_all add: unsubscribeServer_decrement unsubscribeServer_last unsubscribeServer_absent
      unsubscribeClient_decrement unsubscribeClient_last unsubscribeClient_absent
      subscribeServer_invariant unsubscribeServer_invariant
      subscribeClient_invariant unsubscribeClient_invariant Map_get_set)

theorem unsubscribe_reference_counting_witness:
  "Map_get (serverNotifSubscriptions subscribedTwice) publishDiagnostics
     = Some (2, diagnosticsHandles) \<and>
   Map_get (serverNotifSubscriptions
              (snd (unsubscribeServerNotifications subscribedTwice publishDiagnostics)))
      publishDiagnostics = Some (1, diagnosticsHandles) \<and>
   listeners (snd (unsubscribeServerNotifications subscribedTwice publishDiagnostics))
     = listeners subscribedTwice \<and>
   Map_get (serverNotifSubscriptions subscribedOnce) publishDiagnostics
     = Some (1, diagnosticsHandles) \<and>
   \<not> Map_has (serverNotifSubscriptions
                (snd (unsubscribeServerNotifications subscribedOnce publishDiagnostics)))
        publishDiagnostics \<and>
   \<not> Map_has (serverNotifSubscriptions panelOpen) publishDiagnostics \<and>
   (\<exists>e. unsubscribeServerNotifications panelOpen publishDiagnostics = (Some e, panelOpen)) \<and>
   Map_get (clientNotifSubscriptions subscribedTwice) didChange
     = Some (2, didChangeHandles) \<and>
   Map_get (clientNotifSubscriptions
              (snd (unsubscribeClientNotifications subscribedTwice didChange)))
      didChange = Some (1, didChangeHandles) \<and>
   Map_get (clientNotifSubscriptions subscribedOnce) didChange
     = Some (1, didChangeHandles) \<and>
   \<not> Map_has (clientNotifSubscriptions
                (snd (unsubscribeClientNotifications subscribedOnce didChange))) didChange \<and>
   \<not> Map_has (clientNotifSubscriptions panelOpen) didChange \<and>
   (\<exists>e. unsubscribeClientNotifications panelOpen didChange = (Some e, panelOpen)) \<and>
   subscriptionInvariant subscribedTwice \<and>
   subscriptionInvariant (snd (unsubscribeServerNotifications subscribedTwice publishDiagnostics))"
proof -
  have s2: "Map_get (serverNotifSubscriptions subscribedTwice) publishDiagnostics
              = Some (2, diagnosticsHandles)" by code_simp
  have s1: "Map_get (serverNotifSubscriptions subscribedOnce) publishDiagnostics
              = Some (1, diagnosticsHandles)" by code_simp
  have s0: "\<not> Map_has (serverNotifSubscriptions panelOpen) publishDiagnostics" by code_simp
  have c2: "Map_get (clientNotifSubscriptions subscribedTwice) didChange
              = Some (2, didChangeHandles)" by code_simp
  have c1: "Map_get (clientNotifSubscriptions subscribedOnce) didChange
              = Some (1, didChangeHandles)" by code_simp
  have c0: "\<not> Map_has (clientNotifSubscriptions panelOpen) didChange" by code_simp
  have inv: "subscriptionInvariant subscribedTwice" by code_simp
  have two: "(1::int) < 2" "(2::int) - 1 = 1" by simp_all
  note t2 = unsubscribe_reference_counting
              [of subscribedTwice publishDiagnostics 2 diagnosticsHandles nestedProvider]
  note t1 = unsubscribe_reference_counting
              [of subscribedOnce publishDiagnostics 2 diagnosticsHandles nestedProvider]
  note t0 = unsubscribe_reference_counting
              [of panelOpen publishDiagnostics 2 diagnosticsHandles nestedProvider]
  note u2 = unsubscribe_reference_counting
              [of subscribedTwice didChange 2 didChangeHandles nestedProvider]
  note u1 = unsubscribe_reference_counting
              [of subscribedOnce didChange 2 didChangeHandles nestedProvider]
  note u0 = unsubscribe_reference_counting
              [of panelOpen didChange 2 didChangeHandles nestedProvider]
  from t2 s2 two inv have a:
    "Map_get (serverNotifSubscriptions
              (snd (unsubscribeServerNotifications subscribedTwice publishDiagnostics)))
      publishDiagnostics = Some (1, diagnosticsHandles)"
    "listeners (snd (unsubscribeServerNotifications subscribedTwice publishDiagnostics))
     = listeners subscribedTwice"
    "subscriptionInvariant (snd (unsubscribeServerNotifications subscribedTwice publishDiagnostics))"
    by simp_all
  from t1 s1 have b:
    "\<not> Map_has (serverNotifSubscriptions
                (snd (unsubscribeServerNotifications subscribedOnce publishDiagnostics)))
        publishDiagnostics" by blast
  from t0 s0 have c:
    "\<exists>e. unsubscribeServerNotifications panelOpen publishDiagnostics = (Some e, panelOpen)"
    by blast
  from u2 c2 two have d:
    "Map_get (clientNotifSubscriptions
              (snd (unsubscribeClientNotifications subscribedTwice didChange)))
      didChange = Some (1, didChangeHandles)" by simp
  from u1 c1 have e:
    "\<not> Map_has (clientNotifSubscriptions
                (snd (unsubscribeClientNotifications subscribedOnce didChange))) didChange"
    by blast
  from u0 c0 have f:
    "\<exists>e. unsubscribeClientNotifications panelOpen didChange = (Some e, panelOpen)"
    by blast
  from s2 s1 s0 c2 c1 c0 inv a b c d e f show ?thesis by simp
qed

subsection \<open>Restart and removal of a client\<close>

text \<open>
  Claim C5 at a concrete input. The panel subscribed to the diagnostics once, which
  attached one listener to the outer client. When that client restarts,
  \<^verbatim>\<open>onClientRestarted\<close> attaches another listener for the same method to the same
  client and disposes none: two listeners after the first restart, three after the
  second.
\<close>

theorem restart_adds_second_handler:
  "map lid (handlersOf subscribedOnce (cid outerClient) publishDiagnostics) = [0] \<and>
   map lid (handlersOf (client_restarted subscribedOnce outerClient) (cid outerClient)
              publishDiagnostics) = [0, 5] \<and>
   map lid (handlersOf (client_restarted (client_restarted subscribedOnce outerClient) outerClient)
              (cid outerClient) publishDiagnostics) = [0, 5, 7]"
  by code_simp

text \<open>
  Claim C6 at a concrete input. The outer client owns the session \<^verbatim>\<open>s1\<close>. Removing
  its workspace folder deregisters and disposes the client and fires
  \<^verbatim>\<open>clientRemoved\<close>, but \<^verbatim>\<open>onClientRemoved\<close> does nothing: the session stays in
  the table and its timer keeps running. \<^verbatim>\<open>clearRpcSessions\<close> for that client, which
  only the restart listener calls, would have removed the session and cleared the timer.
\<close>

theorem removed_client_keeps_sessions:
  "createRpcSession_begin subscribedOnce nestedProvider ''file:///ws/Main.lean''
     = (RpcAwaitConnect outerClient ''file:///ws/Main.lean'', subscribedOnce) \<and>
   sessionsOf withSession (cid outerClient) = [''s1''] \<and>
   findClient (fst (onDidChangeWorkspaceFolders (nestedProvider, withSession) [''file:///ws'']))
     ''file:///ws/Main.lean'' = None \<and>
   disposedClients (fst (onDidChangeWorkspaceFolders (nestedProvider, withSession) [''file:///ws'']))
     = [cid outerClient] \<and>
   clientRemovedFired (fst (onDidChangeWorkspaceFolders (nestedProvider, withSession) [''file:///ws'']))
     = [outerClient] \<and>
   sessionsOf (snd (onDidChangeWorkspaceFolders (nestedProvider, withSession) [''file:///ws'']))
     (cid outerClient) = [''s1''] \<and>
   intervals (snd (onDidChangeWorkspaceFolders (nestedProvider, withSession) [''file:///ws''])) = [0] \<and>
   sessionsOf (clearRpcSessions withSession (Some outerClient)) (cid outerClient) = [] \<and>
   intervals (clearRpcSessions withSession (Some outerClient)) = []"
  by code_simp

subsection \<open>Opening an RPC session\<close>

text \<open>
  Claim C9. When the answer to the connect request arrives and the panel is gone,
  \<^verbatim>\<open>createRpcSession\<close> throws, the session table is what it was, and the timer of
  the session just made is cleared: its heartbeat does not run.
\<close>

theorem createRpcSession_panel_closed:
  "\<not> webviewPanel i \<Longrightarrow>
     fst (createRpcSession_connected i c u sid)
       = RpcThrown (Error ''infoview disconnect while connecting to RPC session'') \<and>
     rpcSessions (snd (createRpcSession_connected i c u sid)) = rpcSessions i \<and>
     nextInterval i \<notin> set (intervals (snd (createRpcSession_connected i c u sid))) \<and>
     \<not> heartbeatRuns (snd (createRpcSession_connected i c u sid))
          \<lparr>keepAliveInterval = Some (nextInterval i), rpcClient = c, sessionId = sid,
             sessionUri = u\<rparr>"
  by (simp add: createRpcSession_connected_def Let_def RpcSession_dispose_def heartbeatRuns_def)

theorem createRpcSession_panel_closed_witness:
  "\<not> webviewPanel newInfoProvider \<and>
   fst (createRpcSession_connected newInfoProvider outerClient ''file:///ws/Main.lean'' ''s1'')
     = RpcThrown (Error ''infoview disconnect while connecting to RPC session'') \<and>
   rpcSessions (snd (createRpcSession_connected newInfoProvider outerClient
                       ''file:///ws/Main.lean'' ''s1'')) = [] \<and>
   intervals (snd (createRpcSession_connected newInfoProvider outerClient
                       ''file:///ws/Main.lean'' ''s1'')) = []"
proof -
  have closed: "\<not> webviewPanel newInfoProvider" by (simp add: newInfoProvider_def)
  have none: "rpcSessions newInfoProvider = []" by (simp add: newInfoProvider_def)
  have "intervals (snd (createRpcSession_connected newInfoProvider outerClient
                       ''file:///ws/Main.lean'' ''s1'')) = []" by code_simp
  with closed none
    createRpcSession_panel_closed [of newInfoProvider outerClient "''file:///ws/Main.lean''" "''s1''"]
  show ?thesis by simp
qed

text \<open>With the panel open the call returns the identifier and the table holds the session.\<close>

lemma createRpcSession_panel_open:
  "webviewPanel i \<Longrightarrow>
     fst (createRpcSession_connected i c u sid) = RpcReturned sid \<and>
     Map_get (rpcSessions (snd (createRpcSession_connected i c u sid))) sid
       = Some \<lparr>keepAliveInterval = Some (nextInterval i), rpcClient = c, sessionId = sid,
               sessionUri = u\<rparr>"
  by (simp add: createRpcSession_connected_def Let_def Map_get_set)

text \<open>
  Claim C10. When \<^verbatim>\<open>findClient\<close> finds no client for the location,
  \<^verbatim>\<open>createRpcSession\<close> returns the empty string at once, without an error and with the
  state untouched: no timer is started and no session enters the table.
\<close>

theorem createRpcSession_no_client:
  "findClient p u = None \<Longrightarrow> createRpcSession_begin i p u = (RpcReturned [], i)"
  by (simp add: createRpcSession_begin_def)

theorem createRpcSession_no_client_witness:
  "findClient nestedProvider ''file:///elsewhere/X.lean'' = None \<and>
   createRpcSession_begin subscribedOnce nestedProvider ''file:///elsewhere/X.lean''
     = (RpcReturned [], subscribedOnce)"
proof -
  have none: "findClient nestedProvider ''file:///elsewhere/X.lean'' = None" by code_simp
  with createRpcSession_no_client [of nestedProvider "''file:///elsewhere/X.lean''" subscribedOnce]
  show ?thesis by simp
qed

subsection \<open>Creating clients\<close>

lemma ensureClient_begin_cached:
  "Map_get (clients p) (rootPath fr u) = Some c \<Longrightarrow>
     ensureClient_begin fr p u vi = (Returned True (Some c), p\<lparr>activeClient := Some c\<rparr>)"
  by (simp add: ensureClient_begin_def rootPath_def Map_has_get Let_def case_prod_unfold)

lemma getLeanVersion_begin_frame:
  "clients (snd (getLeanVersion_begin fr p u)) = clients p"
  "pending (snd (getLeanVersion_begin fr p u)) = pending p"
  "subscriptions (snd (getLeanVersion_begin fr p u)) = subscriptions p"
  "nextClient (snd (getLeanVersion_begin fr p u)) = nextClient p"
  "disposedClients (snd (getLeanVersion_begin fr p u)) = disposedClients p"
  "startedClients (snd (getLeanVersion_begin fr p u)) = startedClients p"
  "clientAddedFired (snd (getLeanVersion_begin fr p u)) = clientAddedFired p"
  "activeClient (snd (getLeanVersion_begin fr p u)) = activeClient p"
  by (simp_all add: getLeanVersion_begin_def Let_def)

lemma ensureClient_begin_fresh:
  assumes "\<not> Map_has (clients p) (rootPath fr u)" and "\<not> Map_has (pending p) (rootPath fr u)"
  shows "\<exists>w. fst (ensureClient_begin fr p u None)
               = AwaitVersion (rootPath fr u) (createdClient fr p u) False w"
    and "Map_get (clients (snd (ensureClient_begin fr p u None))) (rootPath fr u)
           = Some (createdClient fr p u)"
    and "subscriptions (snd (ensureClient_begin fr p u None))
           = subscriptions p @ [createdClient fr p u]"
    and "clients (snd (ensureClient_begin fr p u None))
           = Map_set (clients p) (rootPath fr u) (createdClient fr p u)"
  using assms
  by (simp_all add: ensureClient_begin_def rootPath_def createdClient_def Let_def
      getLeanVersion_begin_frame Map_get_set Map_has_get case_prod_unfold)

lemma ensureClient_each_cached:
  assumes "Map_get (clients p) path = Some c" and "\<forall>v \<in> set us. rootPath fr v = path"
  shows "fst (ensureClient_each fr p us) = replicate (length us) (Returned True (Some c)) \<and>
         subscriptions (snd (ensureClient_each fr p us)) = subscriptions p \<and>
         clients (snd (ensureClient_each fr p us)) = clients p"
  using assms
proof (induction us arbitrary: p)
  case Nil
  then show ?case by simp
next
  case (Cons v us)
  from Cons.prems have v: "Map_get (clients p) (rootPath fr v) = Some c" by simp
  let ?p1 = "p\<lparr>activeClient := Some c\<rparr>"
  from Cons.prems have "Map_get (clients ?p1) path = Some c" "\<forall>v \<in> set us. rootPath fr v = path"
    by simp_all
  from Cons.IH [OF this] ensureClient_begin_cached [OF v, of None]
  show ?case by (simp add: split_beta)
qed


lemma ensureClient_versioned_foreign:
  assumes "version v \<noteq> []" and "version v \<noteq> ''4''"
  shows "ensureClient_versioned q path c b (Some v) =
           (Returned False None,
            q\<lparr>consoleLog := consoleLog q @
                [''Lean4 extension ignoring workspace '' @ [CHR 0x27] @ path @ [CHR 0x27]
                 @ '' because it is not a Lean 4 workspace.''],
              pending := Map_delete (pending q) path,
              clients := Map_delete (clients q) path,
              disposedClients := disposedClients q @ [cid c]\<rparr>)"
  using assms by (simp add: ensureClient_versioned_def)

lemma ensureClient_versioned_supported:
  assumes "versionInfo = None \<or> (\<exists>v. versionInfo = Some v \<and> (version v = [] \<or> version v = ''4''))"
  shows "clients (snd (ensureClient_versioned q path c b versionInfo)) = clients q"
    and "clientAddedFired (snd (ensureClient_versioned q path c b versionInfo))
           = clientAddedFired q @ [c]"
    and "\<not> Map_has (pending (snd (ensureClient_versioned q path c b versionInfo))) path"
    and "disposedClients (snd (ensureClient_versioned q path c b versionInfo)) = disposedClients q"
  using assms
  by (auto simp: ensureClient_versioned_def Let_def Map_has_get Map_get_delete)

lemma ensureClient_versioned_start:
  assumes "version v = ''4''"
  shows "startedClients (snd (ensureClient_versioned q path c b (Some v))) =
           (if error v = None \<or> error v = Some [] then startedClients q @ [cid c]
            else startedClients q)"
    and "fst (ensureClient_versioned q path c b (Some v)) =
           (if error v = None \<or> error v = Some [] then AwaitStart c b
            else Returned b (Some c))"
  using assms by (simp_all add: ensureClient_versioned_def Let_def)

lemma ensureClient_resume_version:
  "ensureClient_resume q (AwaitVersion path c b w) probe =
     ensureClient_versioned
       (case w of VersionReady versionInfo \<Rightarrow> q
        | VersionProbe key \<Rightarrow> q\<lparr>versions := Map_set (versions q) key probe\<rparr>)
       path c b (resolvedVersion w probe)"
  by (cases w) (simp_all add: resolvedVersion_def getLeanVersion_resume_def)

lemma ensureClient_begin_supplied:
  assumes "\<not> Map_has (clients p) (rootPath fr u)" and "\<not> Map_has (pending p) (rootPath fr u)"
  shows "ensureClient_begin fr p u (Some v) =
           ensureClient_versioned
             (p\<lparr>pending := Map_set (pending p) (rootPath fr u) True,
                consoleLog := consoleLog p @ [''Creating LeanClient for '' @ rootPath fr u],
                nextClient := nextClient p + 1,
                subscriptions := subscriptions p @ [createdClient fr p u],
                clients := Map_set (clients p) (rootPath fr u) (createdClient fr p u)\<rparr>)
             (rootPath fr u) (createdClient fr p u) False (Some v)"
  using assms
  by (simp add: ensureClient_begin_def rootPath_def createdClient_def Let_def
      Map_has_get case_prod_unfold)

text \<open>
  Claim C2, as the code has it. Let no client be registered and none be pending for the
  folder of a location. The first \<^verbatim>\<open>ensureClient\<close> for it allocates one client,
  registers it before it waits for the version, and waits. Every document of the same
  folder opened while that call waits gets this very client with \<open>cached = True\<close>, and
  no further client is allocated (\<open>subscriptions\<close> holds every client ever allocated).
  More generally, in any later state in which that client is still the one registered
  for the folder, a call for the folder returns it and changes nothing but
  \<^verbatim>\<open>activeClient\<close>; and resuming the first call with version 4, with an empty version
  or with none leaves the registry as it is. Nothing is claimed once the client has
  been deregistered.
\<close>

theorem ensureClient_single_creation:
  assumes "\<not> Map_has (clients p) path" and "\<not> Map_has (pending p) path"
    and "rootPath fr u = path" and "\<forall>v \<in> set us. rootPath fr v = path"
  shows "(\<exists>w. fst (ensureClient_begin fr p u None)
                = AwaitVersion path (createdClient fr p u) False w) \<and>
         Map_get (clients (snd (ensureClient_begin fr p u None))) path
           = Some (createdClient fr p u) \<and>
         subscriptions (snd (ensureClient_begin fr p u None))
           = subscriptions p @ [createdClient fr p u] \<and>
         fst (ensureClient_each fr (snd (ensureClient_begin fr p u None)) us)
           = replicate (length us) (Returned True (Some (createdClient fr p u))) \<and>
         subscriptions (snd (ensureClient_each fr (snd (ensureClient_begin fr p u None)) us))
           = subscriptions (snd (ensureClient_begin fr p u None)) \<and>
         (\<forall>q v versionInfo.
            Map_get (clients q) path = Some (createdClient fr p u) \<and> rootPath fr v = path \<longrightarrow>
            ensureClient_begin fr q v versionInfo
              = (Returned True (Some (createdClient fr p u)),
                 q\<lparr>activeClient := Some (createdClient fr p u)\<rparr>)) \<and>
         (\<forall>q w probe.
            (case resolvedVersion w probe of None \<Rightarrow> True
             | Some ver \<Rightarrow> version ver = [] \<or> version ver = ''4'') \<longrightarrow>
            clients (snd (ensureClient_resume q
                       (AwaitVersion path (createdClient fr p u) False w) probe)) = clients q)"
proof -
  let ?c = "createdClient fr p u"
  let ?p1 = "snd (ensureClient_begin fr p u None)"
  from assms have fresh: "\<not> Map_has (clients p) (rootPath fr u)"
    "\<not> Map_has (pending p) (rootPath fr u)" by simp_all
  note b = ensureClient_begin_fresh [OF fresh]
  from b(2) assms(3) have reg: "Map_get (clients ?p1) path = Some ?c" by simp
  have cached: "\<And>q v versionInfo.
      Map_get (clients q) path = Some ?c \<and> rootPath fr v = path \<Longrightarrow>
      ensureClient_begin fr q v versionInfo = (Returned True (Some ?c), q\<lparr>activeClient := Some ?c\<rparr>)"
    using ensureClient_begin_cached by blast
  have kept: "\<And>q w probe.
      (case resolvedVersion w probe of None \<Rightarrow> True
       | Some ver \<Rightarrow> version ver = [] \<or> version ver = ''4'') \<Longrightarrow>
      clients (snd (ensureClient_resume q (AwaitVersion path ?c False w) probe)) = clients q"
  proof -
    fix q w probe
    assume s: "case resolvedVersion w probe of None \<Rightarrow> True
       | Some ver \<Rightarrow> version ver = [] \<or> version ver = ''4''"
    then have "resolvedVersion w probe = None \<or>
       (\<exists>v. resolvedVersion w probe = Some v \<and> (version v = [] \<or> version v = ''4''))"
      by (cases "resolvedVersion w probe") simp_all
    from ensureClient_versioned_supported(1) [OF this]
    show "clients (snd (ensureClient_resume q (AwaitVersion path ?c False w) probe)) = clients q"
      by (cases w) (simp_all add: ensureClient_resume_version)
  qed
  from b(1) assms(3) have first: "\<exists>w. fst (ensureClient_begin fr p u None)
                = AwaitVersion path ?c False w" by simp
  from ensureClient_each_cached [OF reg assms(4)] first reg b(3) cached kept
  show ?thesis by blast
qed


text \<open>
  Claim C2 as stated fails: for a folder whose version is 3 the client is deregistered
  and disposed when the version arrives, so the next document opened in that folder
  makes \<^verbatim>\<open>ensureClient\<close> allocate a second client object for the same folder.
\<close>

theorem ensureClient_foreign_recreates_counterexample:
  "rootPath exampleRoots barDoc = ''file:///ws/Foo'' \<and>
   fst fooOpened = AwaitVersion ''file:///ws/Foo'' fooClient False (VersionProbe ''file:///ws/Foo'') \<and>
   fst fooRejected = Returned False None \<and>
   createdFolders (snd fooReopened) = [''file:///ws/Foo'', ''file:///ws/Foo''] \<and>
   map cid (subscriptions (snd fooReopened)) = [0, 1]"
  by code_simp

theorem ensureClient_single_creation_witness:
  "\<not> Map_has (clients newProvider) ''file:///ws/Foo'' \<and>
   \<not> Map_has (pending newProvider) ''file:///ws/Foo'' \<and>
   rootPath exampleRoots barDoc = ''file:///ws/Foo'' \<and>
   rootPath exampleRoots bazDoc = ''file:///ws/Foo'' \<and>
   createdClient exampleRoots newProvider barDoc = fooClient \<and>
   fst (ensureClient_each exampleRoots (snd fooOpened) [bazDoc, barDoc])
     = [Returned True (Some fooClient), Returned True (Some fooClient)] \<and>
   subscriptions (snd (ensureClient_each exampleRoots (snd fooOpened) [bazDoc, barDoc]))
     = [fooClient]"
proof -
  have h1: "\<not> Map_has (clients newProvider) ''file:///ws/Foo''" by code_simp
  have h2: "\<not> Map_has (pending newProvider) ''file:///ws/Foo''" by code_simp
  have h3: "rootPath exampleRoots barDoc = ''file:///ws/Foo''" by code_simp
  have h4: "\<forall>v \<in> set [bazDoc, barDoc]. rootPath exampleRoots v = ''file:///ws/Foo''"
    by code_simp
  have c: "createdClient exampleRoots newProvider barDoc = fooClient" by code_simp
  have s: "subscriptions newProvider = []" by (simp add: newProvider_def)
  have h5: "rootPath exampleRoots bazDoc = ''file:///ws/Foo''" by code_simp
  from ensureClient_single_creation [OF h1 h2 h3 h4] h1 h2 h3 h5 c s
  show ?thesis by (simp add: fooOpened_def numeral_2_eq_2)
qed


text \<open>
  Claim C3. Let no client be registered and none be pending for the folder, and let the
  version be a non-empty string other than \<^verbatim>\<open>4\<close> (an empty version is no version: the
  code treats it like version 4). If the version is passed to \<^verbatim>\<open>ensureClient\<close>, the
  call returns \<open>(False, undefined)\<close> at once; if it is not, the call registers the new
  client and waits, and when it goes on with such a version, in whatever state the
  provider is by then, it returns \<open>(False, undefined)\<close>. Either way no client is
  registered for the folder afterwards, the guard of the folder is cleared and the new
  client has been disposed. The result of a call is a value or a waiting place; what
  \<^verbatim>\<open>dispose()\<close> itself may throw is outside the model.
\<close>

theorem ensureClient_foreign_version:
  assumes "\<not> Map_has (clients p) (rootPath fr u)" and "\<not> Map_has (pending p) (rootPath fr u)"
    and "version v \<noteq> []" and "version v \<noteq> ''4''"
  shows "fst (ensureClient_begin fr p u (Some v)) = Returned False None \<and>
         \<not> Map_has (clients (snd (ensureClient_begin fr p u (Some v)))) (rootPath fr u) \<and>
         \<not> Map_has (pending (snd (ensureClient_begin fr p u (Some v)))) (rootPath fr u) \<and>
         cid (createdClient fr p u) \<in> set (disposedClients (snd (ensureClient_begin fr p u (Some v)))) \<and>
         (\<exists>w. fst (ensureClient_begin fr p u None)
                = AwaitVersion (rootPath fr u) (createdClient fr p u) False w) \<and>
         Map_get (clients (snd (ensureClient_begin fr p u None))) (rootPath fr u)
           = Some (createdClient fr p u) \<and>
         (\<forall>q w probe. resolvedVersion w probe = Some v \<longrightarrow>
            fst (ensureClient_resume q
                   (AwaitVersion (rootPath fr u) (createdClient fr p u) False w) probe)
              = Returned False None \<and>
            \<not> Map_has (clients (snd (ensureClient_resume q
                   (AwaitVersion (rootPath fr u) (createdClient fr p u) False w) probe)))
                 (rootPath fr u) \<and>
            \<not> Map_has (pending (snd (ensureClient_resume q
                   (AwaitVersion (rootPath fr u) (createdClient fr p u) False w) probe)))
                 (rootPath fr u) \<and>
            cid (createdClient fr p u) \<in> set (disposedClients (snd (ensureClient_resume q
                   (AwaitVersion (rootPath fr u) (createdClient fr p u) False w) probe))))"
proof -
  note f = ensureClient_versioned_foreign [OF assms(3,4)]
  have supplied: "fst (ensureClient_begin fr p u (Some v)) = Returned False None \<and>
         \<not> Map_has (clients (snd (ensureClient_begin fr p u (Some v)))) (rootPath fr u) \<and>
         \<not> Map_has (pending (snd (ensureClient_begin fr p u (Some v)))) (rootPath fr u) \<and>
         cid (createdClient fr p u) \<in> set (disposedClients (snd (ensureClient_begin fr p u (Some v))))"
    by (simp add: ensureClient_begin_supplied [OF assms(1,2)] f Map_has_get Map_get_delete)
  have probed: "\<And>q w probe. resolvedVersion w probe = Some v \<Longrightarrow>
            fst (ensureClient_resume q
                   (AwaitVersion (rootPath fr u) (createdClient fr p u) False w) probe)
              = Returned False None \<and>
            \<not> Map_has (clients (snd (ensureClient_resume q
                   (AwaitVersion (rootPath fr u) (createdClient fr p u) False w) probe)))
                 (rootPath fr u) \<and>
            \<not> Map_has (pending (snd (ensureClient_resume q
                   (AwaitVersion (rootPath fr u) (createdClient fr p u) False w) probe)))
                 (rootPath fr u) \<and>
            cid (createdClient fr p u) \<in> set (disposedClients (snd (ensureClient_resume q
                   (AwaitVersion (rootPath fr u) (createdClient fr p u) False w) probe)))"
    by (simp add: ensureClient_resume_version f Map_has_get Map_get_delete)
  from supplied probed ensureClient_begin_fresh(1,2) [OF assms(1,2)]
  show ?thesis by blast
qed

theorem ensureClient_foreign_version_witness:
  "\<not> Map_has (clients newProvider) (rootPath exampleRoots barDoc) \<and>
   \<not> Map_has (pending newProvider) (rootPath exampleRoots barDoc) \<and>
   version lean3 \<noteq> [] \<and> version lean3 \<noteq> ''4'' \<and>
   fst (ensureClient_begin exampleRoots newProvider barDoc (Some lean3)) = Returned False None \<and>
   resolvedVersion (VersionProbe ''file:///ws/Foo'') lean3 = Some lean3 \<and>
   fst fooRejected = Returned False None \<and>
   \<not> Map_has (clients (snd fooRejected)) (rootPath exampleRoots barDoc) \<and>
   cid fooClient \<in> set (disposedClients (snd fooRejected))"
proof -
  have h1: "\<not> Map_has (clients newProvider) (rootPath exampleRoots barDoc)" by code_simp
  have h2: "\<not> Map_has (pending newProvider) (rootPath exampleRoots barDoc)" by code_simp
  have h3: "version lean3 \<noteq> []" "version lean3 \<noteq> ''4''" by (simp_all add: lean3_def)
  have r: "resolvedVersion (VersionProbe ''file:///ws/Foo'') lean3 = Some lean3"
    by (simp add: resolvedVersion_def)
  have c: "createdClient exampleRoots newProvider barDoc = fooClient" by code_simp
  have k: "fst fooOpened = AwaitVersion (rootPath exampleRoots barDoc) fooClient False
                             (VersionProbe ''file:///ws/Foo'')" by code_simp
  note t = ensureClient_foreign_version [OF h1 h2 h3, unfolded c]
  from t have a: "fst (ensureClient_begin exampleRoots newProvider barDoc (Some lean3))
                    = Returned False None" by blast
  from t r have
    "fst (ensureClient_resume (snd fooOpened)
                (AwaitVersion (rootPath exampleRoots barDoc) fooClient False
                   (VersionProbe ''file:///ws/Foo'')) lean3) = Returned False None"
    and "\<not> Map_has (clients (snd (ensureClient_resume (snd fooOpened)
                (AwaitVersion (rootPath exampleRoots barDoc) fooClient False
                   (VersionProbe ''file:///ws/Foo'')) lean3))) (rootPath exampleRoots barDoc)"
    and "cid fooClient \<in> set (disposedClients (snd (ensureClient_resume (snd fooOpened)
                (AwaitVersion (rootPath exampleRoots barDoc) fooClient False
                   (VersionProbe ''file:///ws/Foo'')) lean3)))"
    by blast+
  with a h1 h2 h3 r k show ?thesis by (simp add: fooRejected_def)
qed


text \<open>
  Claim C8. Let no client be registered and none be pending for the folder, and let the
  version be \<^verbatim>\<open>4\<close>. Whether the version is passed to the call or the call waited for
  it, \<^verbatim>\<open>clientAdded\<close> is fired with the new client, \<^verbatim>\<open>client.start()\<close> is called
  exactly if the version carries no error (\<^verbatim>\<open>undefined\<close> or the empty string), and
  the registry keeps the client: with an error the client stays registered and is not
  started.
\<close>

theorem ensureClient_start_iff_no_error:
  assumes "\<not> Map_has (clients p) (rootPath fr u)" and "\<not> Map_has (pending p) (rootPath fr u)"
    and "version v = ''4''"
  shows "clientAddedFired (snd (ensureClient_begin fr p u (Some v)))
           = clientAddedFired p @ [createdClient fr p u] \<and>
         startedClients (snd (ensureClient_begin fr p u (Some v)))
           = (if error v = None \<or> error v = Some []
              then startedClients p @ [cid (createdClient fr p u)] else startedClients p) \<and>
         Map_get (clients (snd (ensureClient_begin fr p u (Some v)))) (rootPath fr u)
           = Some (createdClient fr p u) \<and>
         (\<forall>q w probe. resolvedVersion w probe = Some v \<longrightarrow>
            clientAddedFired (snd (ensureClient_resume q
                (AwaitVersion (rootPath fr u) (createdClient fr p u) False w) probe))
              = clientAddedFired q @ [createdClient fr p u] \<and>
            startedClients (snd (ensureClient_resume q
                (AwaitVersion (rootPath fr u) (createdClient fr p u) False w) probe))
              = (if error v = None \<or> error v = Some []
                 then startedClients q @ [cid (createdClient fr p u)] else startedClients q) \<and>
            clients (snd (ensureClient_resume q
                (AwaitVersion (rootPath fr u) (createdClient fr p u) False w) probe))
              = clients q)"
proof -
  let ?c = "createdClient fr p u"
  have sup: "Some v = None \<or> (\<exists>x. Some v = Some x \<and> (version x = [] \<or> version x = ''4''))"
    using assms(3) by simp
  note a = ensureClient_versioned_supported [OF sup]
  note b = ensureClient_versioned_start [OF assms(3)]
  have supplied: "clientAddedFired (snd (ensureClient_begin fr p u (Some v)))
           = clientAddedFired p @ [?c] \<and>
         startedClients (snd (ensureClient_begin fr p u (Some v)))
           = (if error v = None \<or> error v = Some []
              then startedClients p @ [cid ?c] else startedClients p) \<and>
         Map_get (clients (snd (ensureClient_begin fr p u (Some v)))) (rootPath fr u) = Some ?c"
    by (simp add: ensureClient_begin_supplied [OF assms(1,2)] a b Map_get_set)
  have probed: "\<And>q w probe. resolvedVersion w probe = Some v \<Longrightarrow>
            clientAddedFired (snd (ensureClient_resume q
                (AwaitVersion (rootPath fr u) ?c False w) probe))
              = clientAddedFired q @ [?c] \<and>
            startedClients (snd (ensureClient_resume q
                (AwaitVersion (rootPath fr u) ?c False w) probe))
              = (if error v = None \<or> error v = Some []
                 then startedClients q @ [cid ?c] else startedClients q) \<and>
            clients (snd (ensureClient_resume q
                (AwaitVersion (rootPath fr u) ?c False w) probe))
              = clients q"
  proof -
    fix q w probe
    assume r: "resolvedVersion w probe = Some v"
    show "clientAddedFired (snd (ensureClient_resume q
                (AwaitVersion (rootPath fr u) ?c False w) probe))
              = clientAddedFired q @ [?c] \<and>
            startedClients (snd (ensureClient_resume q
                (AwaitVersion (rootPath fr u) ?c False w) probe))
              = (if error v = None \<or> error v = Some []
                 then startedClients q @ [cid ?c] else startedClients q) \<and>
            clients (snd (ensureClient_resume q
                (AwaitVersion (rootPath fr u) ?c False w) probe))
              = clients q"
      using r by (cases w) (simp_all add: ensureClient_resume_version a b)
  qed
  from supplied probed show ?thesis by blast
qed


theorem ensureClient_start_iff_no_error_witness:
  "\<not> Map_has (clients newProvider) (rootPath exampleRoots barDoc) \<and>
   \<not> Map_has (pending newProvider) (rootPath exampleRoots barDoc) \<and>
   version lean4 = ''4'' \<and> version lean4Prompting = ''4'' \<and>
   clientAddedFired (snd (ensureClient_begin exampleRoots newProvider barDoc (Some lean4)))
     = [fooClient] \<and>
   startedClients (snd (ensureClient_begin exampleRoots newProvider barDoc (Some lean4))) = [0] \<and>
   clientAddedFired (snd (ensureClient_begin exampleRoots newProvider barDoc (Some lean4Prompting)))
     = [fooClient] \<and>
   startedClients (snd (ensureClient_begin exampleRoots newProvider barDoc (Some lean4Prompting)))
     = [] \<and>
   Map_get (clients (snd (ensureClient_begin exampleRoots newProvider barDoc (Some lean4Prompting))))
     (rootPath exampleRoots barDoc) = Some fooClient \<and>
   resolvedVersion (VersionProbe ''file:///ws/Foo'') lean4Prompting = Some lean4Prompting \<and>
   startedClients (snd (ensureClient_resume (snd fooOpened) (fst fooOpened) lean4Prompting)) = [] \<and>
   clients (snd (ensureClient_resume (snd fooOpened) (fst fooOpened) lean4Prompting))
     = clients (snd fooOpened)"
proof -
  have h1: "\<not> Map_has (clients newProvider) (rootPath exampleRoots barDoc)" by code_simp
  have h2: "\<not> Map_has (pending newProvider) (rootPath exampleRoots barDoc)" by code_simp
  have v1: "version lean4 = ''4''" by (simp add: lean4_def)
  have v2: "version lean4Prompting = ''4''" by (simp add: lean4Prompting_def)
  have e1: "error lean4 = None" by (simp add: lean4_def)
  have e2: "error lean4Prompting = Some ''no default toolchain''"
    by (simp add: lean4Prompting_def)
  have r: "resolvedVersion (VersionProbe ''file:///ws/Foo'') lean4Prompting = Some lean4Prompting"
    by (simp add: resolvedVersion_def)
  have c: "createdClient exampleRoots newProvider barDoc = fooClient" by code_simp
  have k: "fst fooOpened = AwaitVersion (rootPath exampleRoots barDoc) fooClient False
                             (VersionProbe ''file:///ws/Foo'')" by code_simp
  have n: "clientAddedFired newProvider = []" "startedClients newProvider = []"
    "startedClients (snd fooOpened) = []" "cid fooClient = 0"
    by code_simp+
  note t1 = ensureClient_start_iff_no_error [OF h1 h2 v1, unfolded c e1]
  note t2 = ensureClient_start_iff_no_error [OF h1 h2 v2, unfolded c e2]
  from t1 n have a:
    "clientAddedFired (snd (ensureClient_begin exampleRoots newProvider barDoc (Some lean4)))
       = [fooClient]"
    "startedClients (snd (ensureClient_begin exampleRoots newProvider barDoc (Some lean4))) = [0]"
    by simp_all
  from t2 n have b:
    "clientAddedFired (snd (ensureClient_begin exampleRoots newProvider barDoc (Some lean4Prompting)))
       = [fooClient]"
    "startedClients (snd (ensureClient_begin exampleRoots newProvider barDoc (Some lean4Prompting)))
       = []"
    "Map_get (clients (snd (ensureClient_begin exampleRoots newProvider barDoc (Some lean4Prompting))))
       (rootPath exampleRoots barDoc) = Some fooClient"
    by simp_all
  from t2 r have d:
    "startedClients (snd (ensureClient_resume (snd fooOpened)
        (AwaitVersion (rootPath exampleRoots barDoc) fooClient False
           (VersionProbe ''file:///ws/Foo'')) lean4Prompting))
       = (if Some ''no default toolchain'' = None \<or> Some ''no default toolchain'' = Some []
          then startedClients (snd fooOpened) @ [cid fooClient]
          else startedClients (snd fooOpened))"
    "clients (snd (ensureClient_resume (snd fooOpened)
        (AwaitVersion (rootPath exampleRoots barDoc) fooClient False
           (VersionProbe ''file:///ws/Foo'')) lean4Prompting))
       = clients (snd fooOpened)"
    by blast+
  from h1 h2 v1 v2 a b r d k n show ?thesis by simp
qed

subsection \<open>Toolchain changes\<close>

text \<open>
  Claim C7. A signal for a location whose guard is set is dropped: the handler logs one
  line and ends, the provider is otherwise unchanged, no version is asked for. A signal
  for a location whose guard is not set sets the guard and asks for the version. When
  the answer is version 4 and a client is registered for the folder of the location,
  \<^verbatim>\<open>ensureClient\<close> returns that client as cached, allocating and registering nothing,
  and the handler then calls \<^verbatim>\<open>restart()\<close> on it.
\<close>

theorem installChanged_drops_and_restarts:
  "(Map_has (testing p) (uriString u) \<longrightarrow>
      installChanged_begin fr p u
        = (Blocked,
           p\<lparr>consoleLog := consoleLog p @ [''Blocking re-entrancy on '' @ uriString u]\<rparr>)) \<and>
   (\<not> Map_has (testing p) (uriString u) \<longrightarrow>
      fst (installChanged_begin fr p u) = AwaitTestLeanVersion (snd (folderOf fr u)) \<and>
      Map_has (testing (snd (installChanged_begin fr p u))) (uriString u)) \<and>
   (version v = ''4'' \<and> Map_get (clients p) (rootPath fr u) = Some c \<longrightarrow>
      installChanged_tested fr p u v
        = (AwaitEnsureClient (Returned True (Some c)), p\<lparr>activeClient := Some c\<rparr>) \<and>
      (\<forall>q. installChanged_ensured q u True (Some c)
             = (AwaitRestart c, q\<lparr>restartedClients := restartedClients q @ [cid c]\<rparr>)))"
  by (simp add: installChanged_begin_def installChanged_tested_def installChanged_ensured_def
      Let_def ensureClient_begin_cached Map_has_get Map_get_set)

theorem installChanged_drops_and_restarts_witness:
  "\<not> Map_has (testing nestedProvider) (uriString barDoc) \<and>
   Map_has (testing busyProvider) (uriString barDoc) \<and>
   installChanged_begin exampleRoots busyProvider barDoc
     = (Blocked, busyProvider\<lparr>consoleLog := consoleLog busyProvider
          @ [''Blocking re-entrancy on '' @ uriString barDoc]\<rparr>) \<and>
   version lean4 = ''4'' \<and>
   Map_get (clients busyProvider) (rootPath exampleRoots barDoc) = Some innerClient \<and>
   installChanged_tested exampleRoots busyProvider barDoc lean4
     = (AwaitEnsureClient (Returned True (Some innerClient)),
        busyProvider\<lparr>activeClient := Some innerClient\<rparr>) \<and>
   installChanged_ensured (busyProvider\<lparr>activeClient := Some innerClient\<rparr>) barDoc True
       (Some innerClient)
     = (AwaitRestart innerClient,
        busyProvider\<lparr>activeClient := Some innerClient,
                       restartedClients := restartedClients busyProvider @ [cid innerClient]\<rparr>)"
proof -
  have h0: "\<not> Map_has (testing nestedProvider) (uriString barDoc)" by code_simp
  have h1: "Map_has (testing busyProvider) (uriString barDoc)" by code_simp
  have v: "version lean4 = ''4''" by (simp add: lean4_def)
  have g: "Map_get (clients busyProvider) (rootPath exampleRoots barDoc) = Some innerClient"
    by code_simp
  note t = installChanged_drops_and_restarts [of busyProvider barDoc exampleRoots lean4 innerClient]
  from t h1 have a: "installChanged_begin exampleRoots busyProvider barDoc
     = (Blocked, busyProvider\<lparr>consoleLog := consoleLog busyProvider
          @ [''Blocking re-entrancy on '' @ uriString barDoc]\<rparr>)" by blast
  from t v g have b: "installChanged_tested exampleRoots busyProvider barDoc lean4
     = (AwaitEnsureClient (Returned True (Some innerClient)),
        busyProvider\<lparr>activeClient := Some innerClient\<rparr>)"
    and c: "\<forall>q. installChanged_ensured q barDoc True (Some innerClient)
             = (AwaitRestart innerClient,
                q\<lparr>restartedClients := restartedClients q @ [cid innerClient]\<rparr>)"
    by blast+
  from c have d: "installChanged_ensured (busyProvider\<lparr>activeClient := Some innerClient\<rparr>)
       barDoc True (Some innerClient)
     = (AwaitRestart innerClient,
        busyProvider\<lparr>activeClient := Some innerClient,
                       restartedClients := restartedClients busyProvider @ [cid innerClient]\<rparr>)"
    by simp
  from h0 h1 v g a b d show ?thesis by blast
qed

subsection \<open>Restart in general\<close>

lemma Map_set_subset: "set (Map_set m k v) \<subseteq> insert (k, v) (set m)"
  by (induction m) (auto split: if_splits)

lemma Map_get_Cons:
  "Map_get ((k, v) # m) k' = (if k' = k then Some v else Map_get m k')"
  by (simp add: Map_get_def)

lemma Map_get_Nil [simp]: "Map_get [] k = None"
  by (simp add: Map_get_def)

lemma RpcSession_dispose_sessions [simp]:
  "rpcSessions (RpcSession_dispose i sess) = rpcSessions i"
  by (simp add: RpcSession_dispose_def split: option.splits)

lemma clearRpcSessions_loop_owner:
  assumes "\<forall>e \<in> set remaining. cid (rpcClient (snd e)) \<noteq> cid c"
  shows "\<forall>e \<in> set (fst (clearRpcSessions_loop i (Some c) ss remaining)).
           cid (rpcClient (snd e)) \<noteq> cid c"
  using assms
proof (induction ss arbitrary: i remaining)
  case Nil
  then show ?case by simp
next
  case (Cons a ss)
  obtain sid sess where a: "a = (sid, sess)" by (cases a)
  show ?case
  proof (cases "cid (rpcClient sess) = cid c")
    case True
    with a Cons show ?thesis by simp
  next
    case False
    with Cons.prems Map_set_subset [of remaining sid sess]
    have "\<forall>e \<in> set (Map_set remaining sid sess). cid (rpcClient (snd e)) \<noteq> cid c" by auto
    from Cons.IH [OF this] a False show ?thesis by simp
  qed
qed

text \<open>
  What \<^verbatim>\<open>clearRpcSessions(client)\<close> does, in every state: no session of the client is
  left in the table; when the identifiers in the table are distinct, every session of
  another client is still there under its identifier; and the heartbeat of a session
  runs afterwards exactly if it ran before and its timer is not that of a session of
  the client.
\<close>

lemma clearRpcSessions_owned:
  "sessionsOf (clearRpcSessions i (Some c)) (cid c) = []"
proof -
  have "\<forall>e \<in> set (fst (clearRpcSessions_loop i (Some c) (rpcSessions i) [])).
           cid (rpcClient (snd e)) \<noteq> cid c"
    by (rule clearRpcSessions_loop_owner) simp
  then show ?thesis
    by (simp add: sessionsOf_def clearRpcSessions_def split_beta filter_empty_conv)
qed

lemma clearRpcSessions_loop_get:
  assumes "distinct (map fst ss)"
  shows "Map_get (fst (clearRpcSessions_loop i (Some c) ss remaining)) sid =
           (case Map_get ss sid of
              Some sess \<Rightarrow> if cid (rpcClient sess) = cid c then Map_get remaining sid else Some sess
            | None \<Rightarrow> Map_get remaining sid)"
  using assms
proof (induction ss arbitrary: i remaining)
  case Nil
  then show ?case by simp
next
  case (Cons a ss)
  obtain k sess where a: "a = (k, sess)" by (cases a)
  from Cons.prems a have d: "distinct (map fst ss)" and k: "k \<notin> fst ` set ss" by simp_all
  from k have none: "Map_get ss k = None"
    by (simp add: Map_get_def map_of_eq_None_iff)
  show ?case
  proof (cases "cid (rpcClient sess) = cid c")
    case True
    with a Cons.IH [OF d, of "RpcSession_dispose i sess" remaining] none show ?thesis
      by (auto simp: Map_get_Cons split: option.splits)
  next
    case False
    with a Cons.IH [OF d, of i "Map_set remaining k sess"] none show ?thesis
      by (auto simp: Map_get_set Map_get_Cons split: option.splits)
  qed
qed

lemma clearRpcSessions_others:
  assumes "distinct (map fst (rpcSessions i))"
  shows "Map_get (rpcSessions (clearRpcSessions i (Some c))) sid =
           (case Map_get (rpcSessions i) sid of
              Some sess \<Rightarrow> if cid (rpcClient sess) = cid c then None else Some sess
            | None \<Rightarrow> None)"
  using clearRpcSessions_loop_get [OF assms, of i c "[]" sid]
  by (simp add: clearRpcSessions_def split_beta split: option.splits)

lemma clearRpcSessions_loop_intervals:
  "set (intervals (snd (clearRpcSessions_loop i (Some c) ss remaining))) =
     set (intervals i) -
     {t. \<exists>e \<in> set ss. cid (rpcClient (snd e)) = cid c \<and> keepAliveInterval (snd e) = Some t}"
proof (induction ss arbitrary: i remaining)
  case Nil
  then show ?case by simp
next
  case (Cons a ss)
  obtain k sess where a: "a = (k, sess)" by (cases a)
  show ?case
  proof (cases "cid (rpcClient sess) = cid c")
    case True
    have "set (intervals (RpcSession_dispose i sess)) =
            set (intervals i) - {t. keepAliveInterval sess = Some t}"
      by (auto simp: RpcSession_dispose_def split: option.splits)
    with True a Cons.IH [of "RpcSession_dispose i sess" remaining] show ?thesis by auto
  next
    case False
    with a Cons.IH [of i "Map_set remaining k sess"] show ?thesis by auto
  qed
qed

lemma clearRpcSessions_heartbeats:
  "heartbeatRuns (clearRpcSessions i (Some c)) sess \<longleftrightarrow>
     heartbeatRuns i sess \<and>
     \<not> (\<exists>e \<in> set (rpcSessions i). cid (rpcClient (snd e)) = cid c \<and>
            keepAliveInterval (snd e) = keepAliveInterval sess)"
  using clearRpcSessions_loop_intervals [of i c "rpcSessions i" "[]"]
  by (cases "keepAliveInterval sess")
     (auto simp: heartbeatRuns_def clearRpcSessions_def split_beta)

lemma subscribeOn_listeners:
  "listeners (snd (subscribeOn e i c m)) =
     listeners i @ [\<lparr>lid = nextListener i, onClient = cid c, onEvent = e, forMethod = m\<rparr>]"
  by (simp add: subscribeOn_def Let_def)

lemma subscribeOn_server_table [simp]:
  "serverNotifSubscriptions (snd (subscribeOn e i c m)) = serverNotifSubscriptions i"
  by (simp add: subscribeOn_def Let_def)

lemma onClientRestarted_client_server_table:
  "serverNotifSubscriptions (snd (onClientRestarted_client i c tab)) = serverNotifSubscriptions i"
  by (induction tab arbitrary: i)
     (auto simp: split_beta subscribeDidChangeNotification_def
        subscribeDidCloseNotification_def)

lemma onClientRestarted_client_other:
  assumes "m \<noteq> ''textDocument/didChange''" and "m \<noteq> ''textDocument/didClose''"
  shows "filter (\<lambda>h. onClient h = k \<and> forMethod h = m)
           (listeners (snd (onClientRestarted_client i c tab)))
         = filter (\<lambda>h. onClient h = k \<and> forMethod h = m) (listeners i)"
  using assms
  by (induction tab arbitrary: i)
     (auto simp: split_beta subscribeDidChangeNotification_def
        subscribeDidCloseNotification_def subscribeOn_listeners)

lemma onClientRestarted_server_count:
  assumes "m = ''textDocument/publishDiagnostics'' \<or> startsWith m ''$''"
  shows "length (filter (\<lambda>h. onClient h = cid c \<and> forMethod h = m)
           (listeners (snd (onClientRestarted_server i c tab))))
         = length (filter (\<lambda>h. onClient h = cid c \<and> forMethod h = m) (listeners i))
           + length (filter (\<lambda>e. fst e = m) tab)"
  using assms
  by (induction tab arbitrary: i)
     (auto simp: split_beta subscribeDiagnosticsNotification_def
        subscribeCustomNotification_def subscribeOn_listeners)

lemma distinct_key_once:
  assumes "distinct (map fst tab)" and "Map_has tab m"
  shows "length (filter (\<lambda>e. fst e = m) tab) = 1"
  using assms
proof (induction tab)
  case Nil
  then show ?case by (simp add: Map_has_def)
next
  case (Cons a tab)
  show ?case
  proof (cases "fst a = m")
    case True
    with Cons.prems have "m \<notin> fst ` set tab" by auto
    then have "filter (\<lambda>e. fst e = m) tab = []" by (auto simp: filter_empty_conv)
    with True show ?thesis by simp
  next
    case False
    with Cons.prems have "Map_has tab m" by (cases a) (auto simp: Map_has_def)
    with Cons False show ?thesis by simp
  qed
qed

text \<open>
  What \<^verbatim>\<open>onClientRestarted\<close> does, in every state with distinct methods in the table
  of server notifications: a method of that table which the function knows has one
  listener more on the restarted client than before, whatever it had before. So no
  subscribed method is left without a listener on that client, and a client that
  already had one has two.
\<close>

lemma onClientRestarted_adds_one_listener:
  assumes "Map_has (serverNotifSubscriptions i) m"
    and "distinct (map fst (serverNotifSubscriptions i))"
    and "m = ''textDocument/publishDiagnostics'' \<or> startsWith m ''$''"
  shows "length (handlersOf (onClientRestarted i c) (cid c) m)
           = length (handlersOf i (cid c) m) + 1"
proof -
  from assms(3) have nc: "m \<noteq> ''textDocument/didChange''" "m \<noteq> ''textDocument/didClose''"
    by (auto simp: startsWith_def)
  let ?i1 = "snd (onClientRestarted_client i c (clientNotifSubscriptions i))"
  have tab: "serverNotifSubscriptions ?i1 = serverNotifSubscriptions i"
    by (rule onClientRestarted_client_server_table)
  have "length (handlersOf (onClientRestarted i c) (cid c) m)
          = length (filter (\<lambda>h. onClient h = cid c \<and> forMethod h = m)
              (listeners (snd (onClientRestarted_server ?i1 c (serverNotifSubscriptions ?i1)))))"
    by (simp add: handlersOf_def onClientRestarted_def split_beta)
  also have "\<dots> = length (filter (\<lambda>h. onClient h = cid c \<and> forMethod h = m) (listeners ?i1))
                 + length (filter (\<lambda>e. fst e = m) (serverNotifSubscriptions i))"
    by (simp add: onClientRestarted_server_count [OF assms(3)] tab)
  also have "\<dots> = length (handlersOf i (cid c) m) + 1"
    by (simp add: onClientRestarted_client_other [OF nc] distinct_key_once [OF assms(2,1)]
        handlersOf_def)
  finally show ?thesis .
qed

end
